theory Spec2Isabelle
  imports Main "HOL-Library.AList" "HOL-Library.Char_ord" "HOL-Library.List_Lexorder"
begin

section \<open>Errors\<close>

text \<open>
  Go errors are values. \<open>fmt.Errorf(format, args...)\<close> is kept structured: the format
  string, its \<open>%s\<close>/\<open>%d\<close> arguments (a map printed with \<open>%+v\<close> is abbreviated to
  its keys) and the errors it wraps with \<open>%w\<close>.
  \<open>errors.Join\<close> drops its nil arguments, returns nil when nothing is left and
  otherwise one error wrapping the rest in order. A nil error is \<open>None\<close>.
\<close>

datatype farg = Str string | Num nat | MapKeys "string list"

datatype verror = Errorf string "farg list" "verror list" | JoinError "verror list"

definition errors_Join :: "verror option list \<Rightarrow> verror option" where
  "errors_Join errs =
     (case List.map_filter id errs of [] \<Rightarrow> None | e # es \<Rightarrow> Some (JoinError (e # es)))"

text \<open>The numbers an error carries, through everything it wraps or joins.\<close>

fun farg_nats :: "farg \<Rightarrow> nat list" where
  "farg_nats (Str s) = []"
| "farg_nats (Num n) = [n]"
| "farg_nats (MapKeys ks) = []"

fun err_nats :: "verror \<Rightarrow> nat list" where
  "err_nats (Errorf f as ws) = concat (map farg_nats as) @ concat (map err_nats ws)"
| "err_nats (JoinError es) = concat (map err_nats es)"

section \<open>Per-host results\<close>

text \<open>
  Modelled from the spec: the type \<open>hostHTTPResult\<close> and its predicates
  \<open>isPassing\<close> and \<open>isUnauthorizedRequest\<close> are not among the sources. The spec gives
  HostResult as \<open>{host, status-class \<in> {passing, failure, unauthorized, eof, exception},
  http-status, content, err}\<close> with the derived predicates \<open>isPassing\<close> and
  \<open>isUnauthorized\<close>.
\<close>

datatype resultStatus = PASSING | FAILURE | UNAUTHORIZED | EOFEXCEPTION | EXCEPTION

record hostHTTPResult =
  status :: resultStatus
  statusCode :: int
  host :: string
  content :: string
  err :: "verror option"

definition isPassing :: "hostHTTPResult \<Rightarrow> bool" where
  "isPassing r = (status r = PASSING)"

definition isUnauthorizedRequest :: "hostHTTPResult \<Rightarrow> bool" where
  "isUnauthorizedRequest r = (status r = UNAUTHORIZED)"

section \<open>Per-host requests and the cluster request\<close>

text \<open>
  Modelled from the spec: \<open>hostHTTPRequest\<close>, \<open>buildNMAEndpoint\<close> and
  \<open>buildHTTPSEndpoint\<close> are not among the sources. The spec gives HostRequest as
  \<open>{method, endpoint-kind \<in> {node-mgmt, db-https}, path, query-params, body, per-request
  timeout, optional username+password}\<close>. The fields below are the ones the
  operations assign. A Go map that is iterated somewhere is an association list in
  iteration order, written with \<open>AList.update\<close> and read with \<open>map_of\<close>; a \<open>*string\<close> is a
  \<open>string option\<close>.
\<close>

datatype httpMethod = GetMethod | PostMethod | PutMethod | DeleteMethod

datatype endpointKind = NoEndpoint | NMAEndpoint | HTTPSEndpoint

record hostHTTPRequest =
  Method :: httpMethod
  EndpointKind :: endpointKind
  Endpoint :: string
  QueryParams :: "(string \<times> string) list"
  RequestData :: string
  Username :: string
  Password :: "string option"
  Timeout :: int

text \<open>The zero value \<open>hostHTTPRequest{}\<close>; the method's zero value is taken to be GET.\<close>

definition hostHTTPRequest_zero :: hostHTTPRequest where
  "hostHTTPRequest_zero =
     \<lparr>Method = GetMethod, EndpointKind = NoEndpoint, Endpoint = [], QueryParams = [],
      RequestData = [], Username = [], Password = None, Timeout = 0\<rparr>"

definition buildNMAEndpoint :: "string \<Rightarrow> hostHTTPRequest \<Rightarrow> hostHTTPRequest" where
  "buildNMAEndpoint path req = req\<lparr>EndpointKind := NMAEndpoint, Endpoint := path\<rparr>"


record clusterHTTPRequest =
  RequestCollection :: "(string \<times> hostHTTPRequest) list"
  ResultCollection :: "(string \<times> hostHTTPResult) list"

section \<open>The coordination database\<close>

text \<open>
  Modelled from the spec: the types \<open>VCoordinationNode\<close> and \<open>VCoordinationDatabase\<close>
  and \<open>MakeVCoordinationDatabase\<close> are not among the sources. The spec gives the node as
  \<open>{name, address, catalog-path, data-path, depot-path, storage-locations,
  user-storage-locations, subcluster-name, is-primary, state, sandbox-name}\<close> and the
  database as \<open>{name, is-eon, ipv6, catalog-prefix, data-prefix, depot-prefix, use-depot,
  host-list, host\<rightarrow>node mapping, communal-storage-location, primary-node-count}\<close>.
  \<open>HostNodeMap\<close> is \<open>map[string]VCoordinationNode\<close> (the revive code makes it so): it
  holds node values, and indexing a missing host gives the zero node. The records that
  follow reuse several of these field names, so the fields of these two records are
  written qualified (\<open>VCoordinationNode.Name\<close>).
\<close>

record VCoordinationNode =
  Name :: string
  Address :: string
  CatalogPath :: string
  DataPath :: string
  DepotPath :: string
  StorageLocations :: "string list"
  UserStorageLocations :: "string list"
  Subcluster :: string
  IsPrimary :: bool
  State :: string
  Sandbox :: string

record VCoordinationDatabase =
  Name :: string
  IsEon :: bool
  Ipv6 :: bool
  CatalogPrefix :: string
  DataPrefix :: string
  DepotPrefix :: string
  UseDepot :: bool
  HostList :: "string list"
  HostNodeMap :: "(string \<times> VCoordinationNode) list"
  CommunalStorageLocation :: string
  PrimaryNodeCount :: nat

definition VCoordinationNode_zero :: VCoordinationNode where
  "VCoordinationNode_zero =
     \<lparr>VCoordinationNode.Name = [], Address = [], CatalogPath = [], DataPath = [],
      DepotPath = [], StorageLocations = [], UserStorageLocations = [], Subcluster = [],
      IsPrimary = False, State = [], Sandbox = []\<rparr>"

definition MakeVCoordinationDatabase :: VCoordinationDatabase where
  "MakeVCoordinationDatabase =
     \<lparr>VCoordinationDatabase.Name = [], IsEon = False, Ipv6 = False, CatalogPrefix = [],
      DataPrefix = [], DepotPrefix = [], UseDepot = False, HostList = [], HostNodeMap = [],
      CommunalStorageLocation = [], PrimaryNodeCount = 0\<rparr>"

text \<open>\<open>vdb.HostNodeMap[host]\<close>: the node stored under the host, or the zero node.\<close>

definition hostNodeMapIndex :: "(string \<times> VCoordinationNode) list \<Rightarrow> string \<Rightarrow> VCoordinationNode" where
  "hostNodeMapIndex hostNodeMap h =
     (case map_of hostNodeMap h of None \<Rightarrow> VCoordinationNode_zero | Some vnode \<Rightarrow> vnode)"


definition NodeUpState :: string where
  "NodeUpState = ''UP''"

section \<open>The catalog descriptor (nma\_read\_catalog\_editor\_op.go)\<close>

text \<open>
  \<open>json.Number\<close> is a string. Of \<open>nmaVNode\<close> the fields the spec lists for the descriptor
  are kept; the remaining JSON fields are plain data that no function reads.
  \<open>HostNodeMap\<close> of the descriptor is only written by key and read by key.
\<close>

record nmaVersions =
  Global :: string
  Local :: string
  Session :: string
  Spread :: string
  Transaction :: string
  TwoPhaseID :: string

record nmaVNode =
  Address :: string
  CatalogPath :: string
  ControlAddress :: string
  ControlPort :: string
  HasCatalog :: bool
  IsEphemeral :: bool
  IsPrimary :: bool
  Name :: string
  StorageLocations :: "string list"

record nmaVDatabase =
  Name :: string
  Versions :: nmaVersions
  Nodes :: "nmaVNode list"
  HostNodeMap :: "string \<rightharpoonup> nmaVNode"
  ControlMode :: string
  WillUpgrade :: bool
  SpreadEncryption :: string
  CommunalStorageLocation :: string
  PrimaryNodeCount :: nat

text \<open>The zero value \<open>nmaVDatabase{}\<close> that \<open>var latestNmaVDB nmaVDatabase\<close> starts from.\<close>

definition nmaVDatabase_zero :: nmaVDatabase where
  "nmaVDatabase_zero =
     \<lparr>Name = [],
      Versions = \<lparr>Global = [], Local = [], Session = [], Spread = [], Transaction = [],
                  TwoPhaseID = []\<rparr>,
      Nodes = [], HostNodeMap = Map.empty, ControlMode = [], WillUpgrade = False,
      SpreadEncryption = [], CommunalStorageLocation = [], PrimaryNodeCount = 0\<rparr>"

subsection \<open>json.Number.Int64\<close>

text \<open>
  \<open>Versions.Global.Int64()\<close> is \<open>strconv.ParseInt(s, 10, 64)\<close> of the Go library: an
  optional sign, then one or more decimal digits, and the value must fit in 64 signed
  bits.
\<close>

definition digit_of :: "char \<Rightarrow> nat option" where
  "digit_of c =
     (if of_char (CHR ''0'') \<le> (of_char c :: nat) \<and> (of_char c :: nat) \<le> of_char (CHR ''9'')
      then Some (of_char c - of_char (CHR ''0'')) else None)"

fun parseDigits :: "nat \<Rightarrow> string \<Rightarrow> nat option" where
  "parseDigits acc [] = Some acc"
| "parseDigits acc (c # cs) =
     (case digit_of c of None \<Rightarrow> None | Some d \<Rightarrow> parseDigits (acc * 10 + d) cs)"

definition ParseUint :: "string \<Rightarrow> nat option" where
  "ParseUint s = (if s = [] then None else parseDigits 0 s)"

definition syntaxError :: "string \<Rightarrow> verror" where
  "syntaxError s = Errorf ''strconv.ParseInt: parsing %q: invalid syntax'' [Str s] []"

definition rangeError :: "string \<Rightarrow> verror" where
  "rangeError s = Errorf ''strconv.ParseInt: parsing %q: value out of range'' [Str s] []"

definition Int64 :: "string \<Rightarrow> verror + int" where
  "Int64 s0 =
     (case s0 of
        [] \<Rightarrow> Inl (syntaxError s0)
      | c # cs \<Rightarrow>
          (let neg = (c = CHR ''-'');
               s = (if c = CHR ''+'' \<or> c = CHR ''-'' then cs else s0)
           in case ParseUint s of
                None \<Rightarrow> Inl (syntaxError s0)
              | Some un \<Rightarrow>
                  if \<not> neg \<and> un \<ge> 2 ^ 63 then Inl (rangeError s0)
                  else if neg \<and> un > 2 ^ 63 then Inl (rangeError s0)
                  else Inr (if neg then - int un else int un)))"

subsection \<open>The execution context\<close>

text \<open>
  Modelled from the spec: \<open>opEngineExecContext\<close>, \<open>opBase\<close> and the dispatcher's
  \<open>setup\<close> are not among the sources. Of the context the fields that the operations
  read or write are kept; \<open>dispatcher\<close> is the set of hosts that \<open>setup\<close> has
  registered in the pool ("operations must call a Setup(hosts) hook via the dispatcher
  in prepare to ensure membership"). The fields \<open>Address\<close>, \<open>State\<close> and \<open>Sandbox\<close> of an
  entry of \<open>nodesInfo\<close> carry the prefix \<open>ni\<close>.
\<close>

record nodeInfo =
  niAddress :: string
  niState :: string
  niSandbox :: string

record opEngineExecContext =
  dispatcher :: "string set"
  nodesInfo :: "nodeInfo list"
  hostsWithLatestCatalog :: "string list"
  nmaVDatabase :: nmaVDatabase

definition dispatcher_setup :: "string list \<Rightarrow> opEngineExecContext \<Rightarrow> opEngineExecContext" where
  "dispatcher_setup hosts ctx = ctx\<lparr>dispatcher := dispatcher ctx \<union> set hosts\<rparr>"

subsection \<open>nmaReadCatalogEditorOp.processResult\<close>

text \<open>
  \<open>parseAndCheckResponse\<close> (a method of the absent \<open>opBase\<close>) decodes the JSON body; it is
  the parameter \<open>parse\<close>, given the host and the content. The range over the result
  collection is a recursion over the collection in iteration order. The loop state is
  \<open>(allErrs, hostsWithLatestCatalog, maxGlobalVersion, latestNmaVDB)\<close>.
\<close>

type_synonym electionState = "verror option \<times> string list \<times> int \<times> nmaVDatabase"

fun nodesLoop :: "nmaVNode list \<Rightarrow> (string \<rightharpoonup> nmaVNode) \<times> nat \<Rightarrow> (string \<rightharpoonup> nmaVNode) \<times> nat" where
  "nodesLoop [] acc = acc"
| "nodesLoop (n # ns) (hostNodeMap, primaryNodeCount) =
     nodesLoop ns (hostNodeMap(Address n \<mapsto> n),
                   if IsPrimary n then primaryNodeCount + 1 else primaryNodeCount)"

definition deriveMaps :: "nmaVDatabase \<Rightarrow> nmaVDatabase" where
  "deriveMaps nmaVDB =
     (case nodesLoop (Nodes nmaVDB) (Map.empty, 0) of
        (hostNodeMap, primaryNodeCount) \<Rightarrow>
          nmaVDB\<lparr>HostNodeMap := hostNodeMap, PrimaryNodeCount := primaryNodeCount\<rparr>)"

fun electionStep ::
  "(string \<Rightarrow> string \<Rightarrow> verror + nmaVDatabase) \<Rightarrow> string \<Rightarrow> electionState \<Rightarrow>
     string \<times> hostHTTPResult \<Rightarrow> electionState" where
  "electionStep parse opName (allErrs, hosts, maxGlobalVersion, latestNmaVDB) (h, result) =
     (if isPassing result then
        (case parse h (content result) of
           Inl e \<Rightarrow>
             (errors_Join [allErrs,
                Some (Errorf ''[%s] fail to parse result on host %s, details: %w''
                        [Str opName, Str h] [e])],
              hosts, maxGlobalVersion, latestNmaVDB)
         | Inr parsed \<Rightarrow>
             (let nmaVDB = deriveMaps parsed in
              case Int64 (Global (Versions nmaVDB)) of
                Inl e \<Rightarrow>
                  (errors_Join [allErrs,
                     Some (Errorf ''[%s] fail to convert spread Version to integer %s, details: %w''
                             [Str opName, Str h] [e])],
                   hosts, maxGlobalVersion, latestNmaVDB)
              | Inr globalVersion \<Rightarrow>
                  if globalVersion > maxGlobalVersion
                  then (allErrs, [h], globalVersion, nmaVDB)
                  else if globalVersion = maxGlobalVersion
                  then (allErrs, hosts @ [h], maxGlobalVersion, latestNmaVDB)
                  else (allErrs, hosts, maxGlobalVersion, latestNmaVDB)))
      else (errors_Join [allErrs, err result], hosts, maxGlobalVersion, latestNmaVDB))"

fun electionLoop ::
  "(string \<Rightarrow> string \<Rightarrow> verror + nmaVDatabase) \<Rightarrow> string \<Rightarrow> electionState \<Rightarrow>
     (string \<times> hostHTTPResult) list \<Rightarrow> electionState" where
  "electionLoop parse opName st [] = st"
| "electionLoop parse opName st (hr # rest) =
     electionLoop parse opName (electionStep parse opName st hr) rest"

record opBase =
  name :: string
  hosts :: "string list"
  clusterHTTPRequest :: clusterHTTPRequest

record nmaReadCatalogEditorOp = opBase +
  initiator :: "string list"
  vdb :: VCoordinationDatabase
  catalogPathMap :: "(string \<times> string) list"

definition nmaReadCatalogEditorOp_processResult ::
  "(string \<Rightarrow> string \<Rightarrow> verror + nmaVDatabase) \<Rightarrow> 'a opBase_scheme \<Rightarrow> opEngineExecContext \<Rightarrow>
     verror option \<times> opEngineExecContext" where
  "nmaReadCatalogEditorOp_processResult parse op execContext =
     (case electionLoop parse (name op) (None, [], 0, nmaVDatabase_zero)
             (ResultCollection (clusterHTTPRequest op)) of
        (allErrs, latestHosts, maxGlobalVersion, latestNmaVDB) \<Rightarrow>
          if latestHosts = []
          then (errors_Join [allErrs,
                  Some (Errorf ''[%s] cannot find any host with the latest catalog''
                          [Str (name op)] [])],
                execContext)
          else (allErrs,
                execContext\<lparr>hostsWithLatestCatalog := latestHosts, nmaVDatabase := latestNmaVDB\<rparr>))"

subsection \<open>What the election is meant to compute\<close>

text \<open>
  The spec's words, for comparison with the loop: a host returned a parseable descriptor
  when its result is passing, the body parses and \<open>versions.global\<close> converts to an
  integer; \<open>successGlobals\<close> are the converted versions of those hosts, in iteration
  order.
\<close>

definition descriptorGlobal ::
  "(string \<Rightarrow> string \<Rightarrow> verror + nmaVDatabase) \<Rightarrow> string \<times> hostHTTPResult \<Rightarrow> int option" where
  "descriptorGlobal parse hr =
     (if isPassing (snd hr) then
        (case parse (fst hr) (content (snd hr)) of
           Inl e \<Rightarrow> None
         | Inr parsed \<Rightarrow>
             (case Int64 (Global (Versions parsed)) of Inl e \<Rightarrow> None | Inr g \<Rightarrow> Some g))
      else None)"

definition successGlobals ::
  "(string \<Rightarrow> string \<Rightarrow> verror + nmaVDatabase) \<Rightarrow> (string \<times> hostHTTPResult) list \<Rightarrow> int list" where
  "successGlobals parse rc = List.map_filter (descriptorGlobal parse) rc"

definition hostsWithGlobal ::
  "(string \<Rightarrow> string \<Rightarrow> verror + nmaVDatabase) \<Rightarrow> (string \<times> hostHTTPResult) list \<Rightarrow> int \<Rightarrow> string list" where
  "hostsWithGlobal parse rc g = map fst (filter (\<lambda>hr. descriptorGlobal parse hr = Some g) rc)"

text \<open>A context that holds no election result yet, and an operation with given results.\<close>

definition freshContext :: opEngineExecContext where
  "freshContext =
     \<lparr>dispatcher = {}, nodesInfo = [], hostsWithLatestCatalog = [],
      nmaVDatabase = nmaVDatabase_zero\<rparr>"

definition opWithResults :: "string \<Rightarrow> (string \<times> hostHTTPResult) list \<Rightarrow> opBase" where
  "opWithResults n rc =
     \<lparr>name = n, hosts = map fst rc,
      clusterHTTPRequest = \<lparr>RequestCollection = [], ResultCollection = rc\<rparr>\<rparr>"

definition parsedOf ::
  "(string \<Rightarrow> string \<Rightarrow> verror + nmaVDatabase) \<Rightarrow> string \<times> hostHTTPResult \<Rightarrow> nmaVDatabase" where
  "parsedOf parse hr =
     (case parse (fst hr) (content (snd hr)) of
        Inr parsed \<Rightarrow> deriveMaps parsed
      | Inl e \<Rightarrow> nmaVDatabase_zero)"

subsection \<open>Sample inputs\<close>

text \<open>
  Results as a host would return them, and a decoder for the examples that reads the
  whole body as \<open>versions.global\<close> of a descriptor with one primary node.
\<close>

definition passingResult :: "string \<Rightarrow> string \<Rightarrow> hostHTTPResult" where
  "passingResult h body =
     \<lparr>status = PASSING, statusCode = 200, host = h, content = body, err = None\<rparr>"

definition failedResult :: "string \<Rightarrow> verror \<Rightarrow> hostHTTPResult" where
  "failedResult h e =
     \<lparr>status = FAILURE, statusCode = 500, host = h, content = [], err = Some e\<rparr>"

definition unauthorizedResult :: "string \<Rightarrow> verror \<Rightarrow> hostHTTPResult" where
  "unauthorizedResult h e =
     \<lparr>status = UNAUTHORIZED, statusCode = 401, host = h, content = [], err = Some e\<rparr>"

definition sampleNode :: nmaVNode where
  "sampleNode =
     \<lparr>Address = ''10.0.0.1'', CatalogPath = ''/data/db/v_db_node0001_catalog'',
      ControlAddress = ''10.0.0.1'', ControlPort = ''4803'', HasCatalog = True,
      IsEphemeral = False, IsPrimary = True, Name = ''v_db_node0001'',
      StorageLocations = []\<rparr>"

definition decodeGlobal :: "string \<Rightarrow> string \<Rightarrow> verror + nmaVDatabase" where
  "decodeGlobal h body =
     Inr (nmaVDatabase_zero\<lparr>Versions := (Versions nmaVDatabase_zero)\<lparr>Global := body\<rparr>,
                            Nodes := [sampleNode]\<rparr>)"

definition transportError :: verror where
  "transportError = Errorf ''connection refused'' [] []"

definition decodeDetail :: "string \<Rightarrow> string \<Rightarrow> verror + (string \<rightharpoonup> string)" where
  "decodeDetail h body = Inr [''detail'' \<mapsto> body]"

section \<open>httpsStartReplicationOp\<close>



subsection \<open>processResult\<close>

text \<open>
  \<open>parseAndCheckMapResponse\<close> is the parameter \<open>parseMap\<close>; indexing the decoded
  \<open>map[string]string\<close> at a missing key gives the empty string. The format of the last
  error is written without the apostrophes that surround its two \<open>%s\<close>.
\<close>

definition mapIndex :: "(string \<rightharpoonup> string) \<Rightarrow> string \<Rightarrow> string" where
  "mapIndex m k = (case m k of None \<Rightarrow> [] | Some v \<Rightarrow> v)"

definition startReplicationOpSuccMsg :: string where
  "startReplicationOpSuccMsg = ''REPLICATE''"

fun startReplicationLoop ::
  "(string \<Rightarrow> string \<Rightarrow> verror + (string \<rightharpoonup> string)) \<Rightarrow> string \<Rightarrow> verror option \<Rightarrow>
     (string \<times> hostHTTPResult) list \<Rightarrow> verror option" where
  "startReplicationLoop parseMap opName allErrs [] = allErrs"
| "startReplicationLoop parseMap opName allErrs ((h, result) # rest) =
     (if isUnauthorizedRequest result then err result
      else if \<not> isPassing result
      then startReplicationLoop parseMap opName (errors_Join [allErrs, err result]) rest
      else
        (case parseMap h (content result) of
           Inl e \<Rightarrow>
             startReplicationLoop parseMap opName
               (errors_Join [allErrs,
                  Some (Errorf ''[%s] fail to parse result on host %s, details: %w''
                          [Str opName, Str h] [e])])
               rest
         | Inr startRepRsp \<Rightarrow>
             if mapIndex startRepRsp ''detail'' \<noteq> startReplicationOpSuccMsg
             then startReplicationLoop parseMap opName
                    (errors_Join [allErrs,
                       Some (Errorf ''[%s] response detail should be %s but got %s''
                               [Str opName, Str startReplicationOpSuccMsg,
                                Str (mapIndex startRepRsp ''detail'')] [])])
                    rest
             else startReplicationLoop parseMap opName allErrs rest))"

definition httpsStartReplicationOp_processResult ::
  "(string \<Rightarrow> string \<Rightarrow> verror + (string \<rightharpoonup> string)) \<Rightarrow> 'a opBase_scheme \<Rightarrow> verror option" where
  "httpsStartReplicationOp_processResult parseMap op =
     startReplicationLoop parseMap (name op) None (ResultCollection (clusterHTTPRequest op))"

section \<open>NMALoadRemoteCatalogOp (nma\_load\_remote\_catalog\_op.go)\<close>

record NMALoadRemoteCatalogOp = opBase +
  loadHostRequestBodyMap :: "(string \<times> string) list"
  dbName :: string
  communalLocation :: string
  communalStorageParameters :: "(string \<times> string) list"
  oldHosts :: "string list"
  loadVdb :: VCoordinationDatabase
  timeout :: nat
  primaryNodeCount :: nat

text \<open>
  The fields \<open>hostRequestBodyMap\<close> and \<open>vdb\<close> carry a prefix here, as other operations
  have fields of the same names. The two counters are \<open>uint\<close>; each counts entries of a
  map, so neither can wrap, and they are natural numbers.
\<close>

definition successfulCode :: int where
  "successfulCode = 0"

record loadCatalogResponse =
  StatusCode :: int

text \<open>
  The constructor's count of primary nodes: a range over the keys of \<open>vdb.HostNodeMap\<close>,
  indexing the map again at each key.
\<close>

fun countPrimaryNodes :: "(string \<times> VCoordinationNode) list \<Rightarrow> string list \<Rightarrow> nat \<Rightarrow> nat" where
  "countPrimaryNodes hostNodeMap [] n = n"
| "countPrimaryNodes hostNodeMap (h # rest) n =
     countPrimaryNodes hostNodeMap rest
       (if VCoordinationNode.IsPrimary (hostNodeMapIndex hostNodeMap h) then n + 1 else n)"

definition makeNMALoadRemoteCatalogOp ::
  "string list \<Rightarrow> string list \<Rightarrow> string \<Rightarrow> string \<Rightarrow> (string \<times> string) list \<Rightarrow>
     VCoordinationDatabase \<Rightarrow> nat \<Rightarrow> NMALoadRemoteCatalogOp" where
  "makeNMALoadRemoteCatalogOp newHosts oldHosts' dbName' communalLocation'
       communalStorageParameters' vdb' timeout' =
     \<lparr>name = ''NMALoadRemoteCatalogOp'', hosts = newHosts,
      clusterHTTPRequest = \<lparr>RequestCollection = [], ResultCollection = []\<rparr>,
      loadHostRequestBodyMap = [], dbName = dbName', communalLocation = communalLocation',
      communalStorageParameters = communalStorageParameters', oldHosts = oldHosts',
      loadVdb = vdb', timeout = timeout',
      primaryNodeCount =
        countPrimaryNodes (VCoordinationDatabase.HostNodeMap vdb')
          (map fst (VCoordinationDatabase.HostNodeMap vdb')) 0\<rparr>"

text \<open>
  Modelled from the spec: \<open>hasQuorum\<close> (a method of the absent \<open>OpBase\<close>) is not among
  the sources. The spec's quorum check: "successes strictly more than half of
  \<open>primary-node-count\<close>", true "iff \<open>success > total/2\<close> (strict majority)".
\<close>

definition hasQuorum :: "nat \<Rightarrow> nat \<Rightarrow> bool" where
  "hasQuorum hostCount primaryNodeCount' = (primaryNodeCount' < 2 * hostCount)"

text \<open>
  Modelled from the spec: \<open>appendHTTPSFailureError\<close> is not among the sources. It takes
  the aggregated error only; following the spec's propagation policy ("per-host errors
  are joined into one aggregated error per operation") it joins one fixed error onto
  it.
\<close>

definition appendHTTPSFailureError :: "verror option \<Rightarrow> verror option" where
  "appendHTTPSFailureError allErrs =
     errors_Join [allErrs, Some (Errorf ''could not find a host with a passing result'' [] [])]"

text \<open>The loop state is \<open>(allErrs, successPrimaryNodeCount)\<close>.\<close>

fun loadCatalogLoop ::
  "(string \<Rightarrow> string \<Rightarrow> verror + loadCatalogResponse) \<Rightarrow> string \<Rightarrow>
     (string \<times> VCoordinationNode) list \<Rightarrow> verror option \<times> nat \<Rightarrow>
     (string \<times> hostHTTPResult) list \<Rightarrow> verror option \<times> nat" where
  "loadCatalogLoop parse opName hostNodeMap st [] = st"
| "loadCatalogLoop parse opName hostNodeMap (allErrs, successPrimaryNodeCount) ((h, result) # rest) =
     (if isPassing result then
        (case parse h (content result) of
           Inl e \<Rightarrow>
             loadCatalogLoop parse opName hostNodeMap
               (errors_Join [allErrs, Some e], successPrimaryNodeCount) rest
         | Inr response \<Rightarrow>
             if StatusCode response \<noteq> successfulCode
             then loadCatalogLoop parse opName hostNodeMap
                    (errors_Join [allErrs,
                       Some (Errorf ''[%s] fail to load remote catalog on host %s''
                               [Str opName, Str h] [])],
                     successPrimaryNodeCount) rest
             else loadCatalogLoop parse opName hostNodeMap
                    (allErrs,
                     if VCoordinationNode.IsPrimary (hostNodeMapIndex hostNodeMap h)
                     then successPrimaryNodeCount + 1 else successPrimaryNodeCount) rest)
      else loadCatalogLoop parse opName hostNodeMap
             (errors_Join [allErrs,
                errors_Join [Some (Errorf ''[%s] HTTPS call failed on host %s''
                                     [Str opName, Str h] []),
                             err result]],
              successPrimaryNodeCount) rest)"

definition NMALoadRemoteCatalogOp_processResult ::
  "(string \<Rightarrow> string \<Rightarrow> verror + loadCatalogResponse) \<Rightarrow> NMALoadRemoteCatalogOp \<Rightarrow> verror option" where
  "NMALoadRemoteCatalogOp_processResult parse op =
     (case loadCatalogLoop parse (name op) (VCoordinationDatabase.HostNodeMap (loadVdb op)) (None, 0)
             (ResultCollection (clusterHTTPRequest op)) of
        (allErrs, successPrimaryNodeCount) \<Rightarrow>
          if \<not> hasQuorum successPrimaryNodeCount (primaryNodeCount op)
          then appendHTTPSFailureError
                 (errors_Join [allErrs,
                    Some (Errorf ''[%s] fail to load catalog on enough primary nodes. Success count: %d''
                            [Str (name op), Num successPrimaryNodeCount] [])])
          else None)"

text \<open>
  The spec's words, for comparison: a primary node that returned a passing, parseable
  response with status code 0.
\<close>

definition loadedOnPrimary ::
  "(string \<Rightarrow> string \<Rightarrow> verror + loadCatalogResponse) \<Rightarrow> (string \<times> VCoordinationNode) list \<Rightarrow>
     string \<times> hostHTTPResult \<Rightarrow> bool" where
  "loadedOnPrimary parse hostNodeMap hr =
     (isPassing (snd hr) \<and>
      (case parse (fst hr) (content (snd hr)) of
         Inl e \<Rightarrow> False
       | Inr response \<Rightarrow> StatusCode response = 0) \<and>
      VCoordinationNode.IsPrimary (hostNodeMapIndex hostNodeMap (fst hr)))"

text \<open>Sample inputs: a decoder that reads the body as the decimal status, and a database of three nodes.\<close>

definition decodeStatus :: "string \<Rightarrow> string \<Rightarrow> verror + loadCatalogResponse" where
  "decodeStatus h body =
     (case Int64 body of Inl e \<Rightarrow> Inl e | Inr n \<Rightarrow> Inr \<lparr>StatusCode = n\<rparr>)"

definition sampleVNode :: "string \<Rightarrow> string \<Rightarrow> bool \<Rightarrow> VCoordinationNode" where
  "sampleVNode nodeName address primary =
     VCoordinationNode_zero\<lparr>VCoordinationNode.Name := nodeName,
       VCoordinationNode.Address := address,
       VCoordinationNode.CatalogPath := ''/data/test_db/'' @ nodeName @ ''_catalog'',
       VCoordinationNode.IsPrimary := primary\<rparr>"

definition sampleVdb :: VCoordinationDatabase where
  "sampleVdb =
     MakeVCoordinationDatabase
       \<lparr>HostList := [''192.168.1.103'', ''192.168.1.101'', ''192.168.1.102''],
        VCoordinationDatabase.HostNodeMap :=
          [(''192.168.1.103'', sampleVNode ''v_test_db_node0003'' ''192.168.1.103'' True),
           (''192.168.1.101'', sampleVNode ''v_test_db_node0001'' ''192.168.1.101'' True),
           (''192.168.1.102'', sampleVNode ''v_test_db_node0002'' ''192.168.1.102'' True)]\<rparr>"

definition sampleLoadOp :: "(string \<times> hostHTTPResult) list \<Rightarrow> NMALoadRemoteCatalogOp" where
  "sampleLoadOp rc =
     (makeNMALoadRemoteCatalogOp [''192.168.1.103'', ''192.168.1.101'', ''192.168.1.102'']
        [''10.1.10.3'', ''10.1.10.1'', ''10.1.10.2''] ''test_db'' ''s3://tfminio/test_db'' []
        sampleVdb 3600)
       \<lparr>clusterHTTPRequest := \<lparr>RequestCollection = [], ResultCollection = rc\<rparr>\<rparr>"

section \<open>generateReviveVDB (revive\_db)\<close>

text \<open>
  A Go panic is an error value. \<open>sort.Slice\<close> by node name is \<open>sort_key\<close> on the nodes in
  the iteration order of the map; \<open>sort.Slice\<close> is not stable, so for nodes of equal
  names the order is as arbitrary as the iteration order already is. The loop indexes
  \<open>vNodes[index]\<close> for each new host and panics when the index is out of range.
\<close>

datatype panic = IndexOutOfRange nat nat

fun reviveLoop ::
  "VCoordinationNode list \<Rightarrow> nat \<Rightarrow> string list \<Rightarrow>
     (string \<times> VCoordinationNode) list \<times> string list \<Rightarrow>
     panic + (string \<times> VCoordinationNode) list \<times> string list" where
  "reviveLoop vNodes index [] acc = Inr acc"
| "reviveLoop vNodes index (newHost # rest) (hostNodeMap, oldHosts') =
     (if index < length vNodes
      then reviveLoop vNodes (index + 1) rest
             (AList.update newHost ((vNodes ! index)\<lparr>VCoordinationNode.Address := newHost\<rparr>)
                hostNodeMap,
              oldHosts' @ [VCoordinationNode.Address (vNodes ! index)])
      else Inl (IndexOutOfRange index (length vNodes)))"

definition generateReviveVDB ::
  "VCoordinationDatabase \<Rightarrow> string list \<Rightarrow> panic + VCoordinationDatabase \<times> string list" where
  "generateReviveVDB vdb' hosts' =
     (let vNodes = sort_key VCoordinationNode.Name (map snd (VCoordinationDatabase.HostNodeMap vdb'))
      in case reviveLoop vNodes 0 hosts' ([], []) of
           Inl p \<Rightarrow> Inl p
         | Inr (hostNodeMap, oldHosts') \<Rightarrow>
             Inr (MakeVCoordinationDatabase
                    \<lparr>HostList := hosts', VCoordinationDatabase.HostNodeMap := hostNodeMap\<rparr>,
                  oldHosts'))"

section \<open>prepare\<close>

text \<open>
  \<open>prepare\<close> mutates the operation and, through \<open>dispatcher.setup\<close>, the context; the
  model returns the error, the operation and the context as \<open>prepare\<close> leaves them, also
  when it returns early. \<open>RequestCollection\<close> is taken to be an initialised map (the
  sources never show it nil when \<open>prepare\<close> writes to it).
\<close>

subsection \<open>nmaReadCatalogEditorOp.prepare\<close>

definition readCatalogRequest :: "string \<Rightarrow> hostHTTPRequest" where
  "readCatalogRequest catalogPath =
     (buildNMAEndpoint ''catalog/database'' (hostHTTPRequest_zero\<lparr>Method := GetMethod\<rparr>))
       \<lparr>QueryParams := [(''catalog_path'', catalogPath)]\<rparr>"

fun readCatalog_setupClusterHTTPRequest ::
  "string \<Rightarrow> (string \<times> string) list \<Rightarrow> string list \<Rightarrow> (string \<times> hostHTTPRequest) list \<Rightarrow>
     verror option \<times> (string \<times> hostHTTPRequest) list" where
  "readCatalog_setupClusterHTTPRequest opName pathMap [] requests = (None, requests)"
| "readCatalog_setupClusterHTTPRequest opName pathMap (h # rest) requests =
     (case map_of pathMap h of
        None \<Rightarrow>
          (Some (Errorf ''[%s] cannot find catalog path of host %s'' [Str opName, Str h] []),
           requests)
      | Some catalogPath \<Rightarrow>
          readCatalog_setupClusterHTTPRequest opName pathMap rest
            (AList.update h (readCatalogRequest catalogPath) requests))"

text \<open>The loop over a non-empty initiator list; its state is \<open>(op.hosts, op.catalogPathMap)\<close>.\<close>

fun initiatorLoop ::
  "string \<Rightarrow> (string \<times> VCoordinationNode) list \<Rightarrow> string list \<Rightarrow>
     string list \<times> (string \<times> string) list \<Rightarrow>
     verror option \<times> string list \<times> (string \<times> string) list" where
  "initiatorLoop opName hostNodeMap [] (opHosts, pathMap) = (None, opHosts, pathMap)"
| "initiatorLoop opName hostNodeMap (h # rest) (opHosts, pathMap) =
     (case map_of hostNodeMap h of
        None \<Rightarrow>
          (Some (Errorf ''[%s] cannot find the initiator host %s from vdb.HostNodeMap %+v''
                   [Str opName, Str h, MapKeys (map fst hostNodeMap)] []),
           opHosts @ [h], pathMap)
      | Some vnode \<Rightarrow>
          initiatorLoop opName hostNodeMap rest
            (opHosts @ [h], AList.update h (VCoordinationNode.CatalogPath vnode) pathMap))"

text \<open>
  The first half of \<open>prepare\<close>: the hosts and the map from host to catalog path, from
  all nodes of the database when no initiator is given and from the initiators
  otherwise.
\<close>

definition readCatalog_buildCatalogPathMap ::
  "nmaReadCatalogEditorOp \<Rightarrow> verror option \<times> string list \<times> (string \<times> string) list" where
  "readCatalog_buildCatalogPathMap op =
     (if initiator op = []
      then (None, map fst (VCoordinationDatabase.HostNodeMap (vdb op)),
            fold (\<lambda>hv pathMap. AList.update (fst hv) (VCoordinationNode.CatalogPath (snd hv)) pathMap)
              (VCoordinationDatabase.HostNodeMap (vdb op)) [])
      else initiatorLoop (name op) (VCoordinationDatabase.HostNodeMap (vdb op)) (initiator op)
             (hosts op, []))"

definition nmaReadCatalogEditorOp_prepare ::
  "nmaReadCatalogEditorOp \<Rightarrow> opEngineExecContext \<Rightarrow>
     verror option \<times> nmaReadCatalogEditorOp \<times> opEngineExecContext" where
  "nmaReadCatalogEditorOp_prepare op execContext =
     (case readCatalog_buildCatalogPathMap op of
        (Some e, opHosts, pathMap) \<Rightarrow>
          (Some e, op\<lparr>hosts := opHosts, catalogPathMap := pathMap\<rparr>, execContext)
      | (None, opHosts, pathMap) \<Rightarrow>
          (case readCatalog_setupClusterHTTPRequest (name op) pathMap opHosts
                  (RequestCollection (clusterHTTPRequest op)) of
             (e, requests) \<Rightarrow>
               (e,
                op\<lparr>hosts := opHosts, catalogPathMap := pathMap,
                   clusterHTTPRequest := (clusterHTTPRequest op)\<lparr>RequestCollection := requests\<rparr>\<rparr>,
                dispatcher_setup opHosts execContext)))"

subsection \<open>httpsStartReplicationOp.prepare\<close>







subsection \<open>Sample operations\<close>

text \<open>
  The two constructors of the read-catalog operation (their error result is always nil),
  a start-replication operation as its constructor leaves it without passwords, a
  context that lists three nodes, and sample stand-ins for \<open>util.SliceCommon\<close> and
  \<open>json.Marshal\<close>.
\<close>

definition makeNMAReadCatalogEditorOpWithInitiator ::
  "string list \<Rightarrow> VCoordinationDatabase \<Rightarrow> nmaReadCatalogEditorOp" where
  "makeNMAReadCatalogEditorOpWithInitiator initiator' vdb' =
     \<lparr>name = ''NMAReadCatalogEditorOp'', hosts = [],
      clusterHTTPRequest = \<lparr>RequestCollection = [], ResultCollection = []\<rparr>,
      initiator = initiator', vdb = vdb', catalogPathMap = []\<rparr>"

definition makeNMAReadCatalogEditorOp :: "VCoordinationDatabase \<Rightarrow> nmaReadCatalogEditorOp" where
  "makeNMAReadCatalogEditorOp vdb' = makeNMAReadCatalogEditorOpWithInitiator [] vdb'"





section \<open>AdapterPool.sendRequest (adapter\_pool.go)\<close>









section \<open>The catalog-version election: properties\<close>

subsection \<open>Invariants of the election loop\<close>

lemma Versions_deriveMaps [simp]: "Versions (deriveMaps p) = Versions p"
  by (simp add: deriveMaps_def split: prod.splits)

lemma foldl_max_ge: "(m::int) \<le> foldl max m gs"
proof (induction gs arbitrary: m)
  case Nil
  show ?case by simp
next
  case (Cons g gs)
  have "m \<le> max m g" by simp
  also have "\<dots> \<le> foldl max (max m g) gs" by (rule Cons.IH)
  finally show ?case by simp
qed

lemma electionStep_None:
  assumes "descriptorGlobal parse (h, r) = None"
  shows "\<exists>a2. electionStep parse n (a, hs, m, l) (h, r) = (a2, hs, m, l)"
proof (cases "isPassing r")
  case False
  then show ?thesis by simp
next
  case True
  show ?thesis
  proof (cases "parse h (content r)")
    case (Inl e)
    with True show ?thesis by simp
  next
    case (Inr p)
    show ?thesis
    proof (cases "Int64 (Global (Versions p))")
      case (Inl e)
      with True Inr show ?thesis by (simp add: Let_def)
    next
      case Inr2: (Inr g)
      with True Inr assms show ?thesis by (simp add: descriptorGlobal_def)
    qed
  qed
qed

lemma electionStep_Some:
  assumes "descriptorGlobal parse (h, r) = Some g"
  shows "electionStep parse n (a, hs, m, l) (h, r) =
     (if g > m then (a, [h], g, parsedOf parse (h, r))
      else if g = m then (a, hs @ [h], m, l) else (a, hs, m, l))"
proof (cases "isPassing r")
  case False
  with assms show ?thesis by (simp add: descriptorGlobal_def)
next
  case True
  show ?thesis
  proof (cases "parse h (content r)")
    case (Inl e)
    with True assms show ?thesis by (simp add: descriptorGlobal_def)
  next
    case (Inr p)
    show ?thesis
    proof (cases "Int64 (Global (Versions p))")
      case (Inl e)
      with True Inr assms show ?thesis by (simp add: descriptorGlobal_def)
    next
      case Inr2: (Inr g')
      with True Inr assms have "g' = g" by (simp add: descriptorGlobal_def)
      with True Inr Inr2 show ?thesis by (simp add: parsedOf_def Let_def)
    qed
  qed
qed

lemma electionLoop_inv:
  "electionLoop parse n (a, hs, m, l) rc = (a', hs', m', l') \<Longrightarrow>
     m' = foldl max m (successGlobals parse rc) \<and>
     hs' = (if m' = m then hs else []) @ hostsWithGlobal parse rc m'"
proof (induction rc arbitrary: a hs m l)
  case Nil
  then show ?case by (simp add: successGlobals_def hostsWithGlobal_def map_filter_simps)
next
  case (Cons hr rc)
  obtain h r where hr: "hr = (h, r)" by (cases hr)
  show ?case
  proof (cases "descriptorGlobal parse hr")
    case None
    then obtain a2 where st: "electionStep parse n (a, hs, m, l) hr = (a2, hs, m, l)"
      using electionStep_None[of parse h r n a hs m l] by (auto simp: hr)
    from Cons.prems have "electionLoop parse n (a2, hs, m, l) rc = (a', hs', m', l')"
      by (simp add: st)
    from Cons.IH[OF this] None show ?thesis
      by (simp add: successGlobals_def hostsWithGlobal_def map_filter_simps)
  next
    case (Some g)
    note st = electionStep_Some[of parse h r g n a hs m l, OF Some[unfolded hr]]
    have sg: "successGlobals parse (hr # rc) = g # successGlobals parse rc"
      using Some by (simp add: successGlobals_def map_filter_simps)
    have hw: "hostsWithGlobal parse (hr # rc) x = (if g = x then [h] else []) @ hostsWithGlobal parse rc x" for x
      using Some by (auto simp: hostsWithGlobal_def hr)
    consider (gt) "g > m" | (eq) "g = m" | (lt) "g < m" by linarith
    then show ?thesis
    proof cases
      case gt
      with Cons.prems st have "electionLoop parse n (a, [h], g, parsedOf parse (h, r)) rc = (a', hs', m', l')"
        by (simp add: hr)
      from Cons.IH[OF this] have m': "m' = foldl max g (successGlobals parse rc)"
        and hs': "hs' = (if m' = g then [h] else []) @ hostsWithGlobal parse rc m'" by auto
      have "g \<le> m'" unfolding m' by (rule foldl_max_ge)
      with gt have "m' \<noteq> m" by simp
      moreover have "max m g = g" using gt by simp
      ultimately show ?thesis using m' hs' by (auto simp add: sg hw)
    next
      case eq
      with Cons.prems st have "electionLoop parse n (a, hs @ [h], m, l) rc = (a', hs', m', l')"
        by (simp add: hr)
      from Cons.IH[OF this] have m': "m' = foldl max m (successGlobals parse rc)"
        and hs': "hs' = (if m' = m then hs @ [h] else []) @ hostsWithGlobal parse rc m'" by auto
      show ?thesis using m' hs' eq by (auto simp add: sg hw)
    next
      case lt
      with Cons.prems st have "electionLoop parse n (a, hs, m, l) rc = (a', hs', m', l')"
        by (simp add: hr)
      from Cons.IH[OF this] have m': "m' = foldl max m (successGlobals parse rc)"
        and hs': "hs' = (if m' = m then hs else []) @ hostsWithGlobal parse rc m'" by auto
      have "m \<le> m'" unfolding m' by (rule foldl_max_ge)
      with lt have "g \<noteq> m'" by simp
      moreover have "max m g = m" using lt by simp
      ultimately show ?thesis using m' hs' by (auto simp add: sg hw)
    qed
  qed
qed

lemma electionLoop_latest:
  "electionLoop parse n (a, hs, m, l) rc = (a', hs', m', l') \<Longrightarrow>
     l' = (if m < m'
           then parsedOf parse (hd (filter (\<lambda>hr. descriptorGlobal parse hr = Some m') rc))
           else l)"
proof (induction rc arbitrary: a hs m l)
  case Nil
  then show ?case by simp
next
  case (Cons hr rc)
  obtain h r where hr: "hr = (h, r)" by (cases hr)
  show ?case
  proof (cases "descriptorGlobal parse hr")
    case None
    then obtain a2 where st: "electionStep parse n (a, hs, m, l) hr = (a2, hs, m, l)"
      using electionStep_None[of parse h r n a hs m l] by (auto simp: hr)
    from Cons.prems have "electionLoop parse n (a2, hs, m, l) rc = (a', hs', m', l')"
      by (simp add: st)
    from Cons.IH[OF this] None show ?thesis by simp
  next
    case (Some g)
    note st = electionStep_Some[of parse h r g n a hs m l, OF Some[unfolded hr]]
    consider (gt) "g > m" | (le) "g \<le> m" by linarith
    then show ?thesis
    proof cases
      case gt
      with Cons.prems st
      have run: "electionLoop parse n (a, [h], g, parsedOf parse (h, r)) rc = (a', hs', m', l')"
        by (simp add: hr)
      from electionLoop_inv[OF run] have "m' = foldl max g (successGlobals parse rc)" by simp
      then have "g \<le> m'" by (simp add: foldl_max_ge)
      with gt Cons.IH[OF run] Some show ?thesis by (auto simp: hr)
    next
      case le
      with Cons.prems st obtain hs2 where
        run: "electionLoop parse n (a, hs2, m, l) rc = (a', hs', m', l')"
        by (auto simp: hr split: if_splits)
      from le Cons.IH[OF run] Some show ?thesis by (auto simp: hr)
    qed
  qed
qed

lemma errors_Join_Some [simp]:
  "errors_Join [a, Some e] = Some (JoinError (case a of None \<Rightarrow> [e] | Some x \<Rightarrow> [x, e]))"
  by (cases a) (simp_all add: errors_Join_def map_filter_simps)

lemma errors_Join_left [simp]:
  "errors_Join [Some x, b] = Some (JoinError (case b of None \<Rightarrow> [x] | Some e \<Rightarrow> [x, e]))"
  by (cases b) (simp_all add: errors_Join_def map_filter_simps)

lemma errors_Join_None [simp]: "errors_Join [None, None] = None"
  by (simp add: errors_Join_def map_filter_simps)



lemma foldl_max_Max: "foldl max (m::int) gs = Max (insert m (set gs))"
proof (induction gs arbitrary: m)
  case Nil
  show ?case by simp
next
  case (Cons g gs)
  have "foldl max m (g # gs) = Max (insert (max m g) (set gs))" by (simp add: Cons.IH)
  also have "\<dots> = Max (insert m (insert g (set gs)))"
    by (cases "set gs = {}") (simp_all add: max.assoc)
  finally show ?case by simp
qed

lemma set_successGlobals:
  "set (successGlobals parse rc) = {g. \<exists>hr\<in>set rc. descriptorGlobal parse hr = Some g}"
  by (induction rc) (auto simp: successGlobals_def map_filter_simps split: option.splits)

lemma hostsWithGlobal_Nil_iff:
  "hostsWithGlobal parse rc g = [] \<longleftrightarrow> g \<notin> set (successGlobals parse rc)"
  by (auto simp: hostsWithGlobal_def set_successGlobals filter_empty_conv)

lemma processResult_unfold:
  assumes "electionLoop parse (name op) (None, [], 0, nmaVDatabase_zero) (ResultCollection (clusterHTTPRequest op)) = (a', hs', m', l')"
  shows "nmaReadCatalogEditorOp_processResult parse op ctx =
     (if hs' = [] then (errors_Join [a', Some (Errorf ''[%s] cannot find any host with the latest catalog'' [Str (name op)] [])], ctx)
      else (a', ctx\<lparr>hostsWithLatestCatalog := hs', nmaVDatabase := l'\<rparr>))"
  using assms by (simp add: nmaReadCatalogEditorOp_processResult_def)

lemma published_hosts:
  assumes "hostsWithLatestCatalog ctx = []"
  shows "hostsWithLatestCatalog (snd (nmaReadCatalogEditorOp_processResult parse op ctx)) =
         hostsWithGlobal parse (ResultCollection (clusterHTTPRequest op))
           (Max (insert 0 (set (successGlobals parse (ResultCollection (clusterHTTPRequest op))))))"
proof -
  let ?rc = "ResultCollection (clusterHTTPRequest op)"
  obtain a' hs' m' l' where
    run: "electionLoop parse (name op) (None, [], 0, nmaVDatabase_zero) ?rc = (a', hs', m', l')"
    by (cases "electionLoop parse (name op) (None, [], 0, nmaVDatabase_zero) ?rc") auto
  from electionLoop_inv[OF run] have "hs' = hostsWithGlobal parse ?rc (Max (insert 0 (set (successGlobals parse ?rc))))"
    by (simp add: foldl_max_Max)
  then show ?thesis
    unfolding processResult_unfold[OF run] using assms by simp
qed

text \<open>
  Claim C1, as the code has it. On a context that holds no earlier election result, the
  published \<open>hostsWithLatestCatalog\<close> is non-empty if and only if at least one host
  returned a parseable descriptor (passing result, body parses, \<open>versions.global\<close>
  converts to an integer) whose \<open>versions.global\<close> is not negative: the running maximum
  starts at 0, so a negative version never wins. When the list is non-empty, every host
  in it has \<open>versions.global\<close> equal to the maximum over all successfully parsed
  descriptors.
\<close>

theorem readCatalog_latest_hosts_nonempty_iff:
  assumes "hostsWithLatestCatalog ctx = []"
    and "ResultCollection (clusterHTTPRequest op) = rc"
    and "published = hostsWithLatestCatalog (snd (nmaReadCatalogEditorOp_processResult parse op ctx))"
  shows "(published \<noteq> [] \<longleftrightarrow> (\<exists>g\<in>set (successGlobals parse rc). 0 \<le> g)) \<and>
         (\<forall>h\<in>set published. \<exists>r. (h, r) \<in> set rc \<and>
              descriptorGlobal parse (h, r) = Some (Max (set (successGlobals parse rc))))"
proof -
  let ?gs = "successGlobals parse rc"
  let ?M = "Max (insert 0 (set ?gs))"
  have pub: "published = hostsWithGlobal parse rc ?M"
    using published_hosts[OF assms(1), of parse op] assms(2,3) by simp
  have fin: "finite (insert 0 (set ?gs))" by simp
  have Min: "?M \<in> insert 0 (set ?gs)" by (rule Max_in) simp_all
  have Mge: "\<And>g. g \<in> set ?gs \<Longrightarrow> g \<le> ?M" by (rule Max_ge) simp_all
  have M0: "0 \<le> ?M" by (rule Max_ge) simp_all
  have iff: "published \<noteq> [] \<longleftrightarrow> ?M \<in> set ?gs"
    by (simp add: pub hostsWithGlobal_Nil_iff)
  have a: "published \<noteq> [] \<longleftrightarrow> (\<exists>g\<in>set ?gs. 0 \<le> g)"
  proof
    assume "published \<noteq> []"
    with iff M0 show "\<exists>g\<in>set ?gs. 0 \<le> g" by blast
  next
    assume "\<exists>g\<in>set ?gs. 0 \<le> g"
    then obtain g where g: "g \<in> set ?gs" "0 \<le> g" by blast
    show "published \<noteq> []"
    proof (cases "?M = 0")
      case True
      with Mge[OF g(1)] g(2) have "g = ?M" by simp
      with g(1) iff show ?thesis by simp
    next
      case False
      with Min iff show ?thesis by auto
    qed
  qed
  have b: "\<forall>h\<in>set published. \<exists>r. (h, r) \<in> set rc \<and> descriptorGlobal parse (h, r) = Some (Max (set ?gs))"
  proof
    fix h assume h: "h \<in> set published"
    then have ne: "published \<noteq> []" by auto
    with iff have Ms: "?M \<in> set ?gs" by simp
    then have "set ?gs \<noteq> {}" by auto
    then have "?M = max 0 (Max (set ?gs))" by simp
    moreover have "?M \<le> Max (set ?gs)" using Ms by simp
    ultimately have "?M = Max (set ?gs)" by simp
    with h pub show "\<exists>r. (h, r) \<in> set rc \<and> descriptorGlobal parse (h, r) = Some (Max (set ?gs))"
      by (auto simp: hostsWithGlobal_def)
  qed
  from a b show ?thesis by blast
qed


theorem readCatalog_latest_hosts_nonempty_iff_witness:
  "hostsWithLatestCatalog freshContext = [] \<and>
   hostsWithLatestCatalog (snd (nmaReadCatalogEditorOp_processResult decodeGlobal
      (opWithResults ''NMAReadCatalogEditorOp''
         [(''B'', passingResult ''B'' ''12''), (''A'', passingResult ''A'' ''10''),
          (''C'', passingResult ''C'' ''12'')]) freshContext)) = [''B'', ''C''] \<and>
   (\<exists>g\<in>set (successGlobals decodeGlobal
         [(''B'', passingResult ''B'' ''12''), (''A'', passingResult ''A'' ''10''),
          (''C'', passingResult ''C'' ''12'')]). 0 \<le> g) \<and>
   (\<exists>r. (''C'', r) \<in> set [(''B'', passingResult ''B'' ''12''), (''A'', passingResult ''A'' ''10''),
          (''C'', passingResult ''C'' ''12'')] \<and>
        descriptorGlobal decodeGlobal (''C'', r) =
          Some (Max (set (successGlobals decodeGlobal
             [(''B'', passingResult ''B'' ''12''), (''A'', passingResult ''A'' ''10''),
              (''C'', passingResult ''C'' ''12'')]))))"
proof -
  let ?rc = "[(''B'', passingResult ''B'' ''12''), (''A'', passingResult ''A'' ''10''),
              (''C'', passingResult ''C'' ''12'')]"
  let ?op = "opWithResults ''NMAReadCatalogEditorOp'' ?rc"
  have h1: "hostsWithLatestCatalog freshContext = []"
    by (simp add: freshContext_def)
  have h2: "ResultCollection (clusterHTTPRequest ?op) = ?rc"
    by (simp add: opWithResults_def)
  have h3: "[''B'', ''C''] =
      hostsWithLatestCatalog (snd (nmaReadCatalogEditorOp_processResult decodeGlobal ?op freshContext))"
    by (simp add: nmaReadCatalogEditorOp_processResult_def opWithResults_def freshContext_def
        decodeGlobal_def passingResult_def isPassing_def Int64_def ParseUint_def digit_of_def
        Let_def deriveMaps_def nmaVDatabase_zero_def sampleNode_def)
  note inst = readCatalog_latest_hosts_nonempty_iff[OF h1 h2 h3]
  from inst have a: "\<exists>g\<in>set (successGlobals decodeGlobal ?rc). 0 \<le> g"
    by simp
  from inst have "\<forall>h\<in>set [''B'', ''C'']. \<exists>r. (h, r) \<in> set ?rc \<and>
      descriptorGlobal decodeGlobal (h, r) = Some (Max (set (successGlobals decodeGlobal ?rc)))"
    by (rule conjunct2)
  then have b: "\<exists>r. (''C'', r) \<in> set ?rc \<and>
      descriptorGlobal decodeGlobal (''C'', r) = Some (Max (set (successGlobals decodeGlobal ?rc)))"
    by simp
  from h1 h3[symmetric] a b show ?thesis
    by (intro conjI)
qed

text \<open>
  The claim as stated fails where every parsed version is negative: the host returned a
  parseable descriptor, and nothing is published.
\<close>

theorem readCatalog_negative_global_counterexample:
  "descriptorGlobal decodeGlobal (''A'', passingResult ''A'' ''-1'') = Some (- 1) \<and>
   hostsWithLatestCatalog (snd (nmaReadCatalogEditorOp_processResult decodeGlobal
      (opWithResults ''NMAReadCatalogEditorOp'' [(''A'', passingResult ''A'' ''-1'')])
      freshContext)) = []"
  by (simp add: nmaReadCatalogEditorOp_processResult_def opWithResults_def freshContext_def
      descriptorGlobal_def decodeGlobal_def passingResult_def isPassing_def Int64_def
      ParseUint_def digit_of_def Let_def deriveMaps_def nmaVDatabase_zero_def sampleNode_def)

text \<open>
  Claim C8. The published \<open>hostsWithLatestCatalog\<close> is the result collection, in the order
  in which the reduction meets it, filtered to the hosts whose \<open>versions.global\<close> equals
  the maximum: first-seen order is preserved, and only \<open>versions.global\<close> decides (no
  tie-breaking on the deeper version fields). With globals A:10, B:12, C:12 and B seen
  before C the list is [B, C].
\<close>

theorem readCatalog_latest_hosts_first_seen_order:
  assumes "hostsWithLatestCatalog ctx = []"
    and "ResultCollection (clusterHTTPRequest op) = rc"
  shows "hostsWithLatestCatalog (snd (nmaReadCatalogEditorOp_processResult parse op ctx)) =
         map fst (filter (\<lambda>hr. descriptorGlobal parse hr =
                              Some (Max (insert 0 (set (successGlobals parse rc))))) rc)"
  using published_hosts[OF assms(1), of parse op] assms(2)
  by (simp add: hostsWithGlobal_def)

theorem readCatalog_latest_hosts_first_seen_order_witness:
  "hostsWithLatestCatalog freshContext = [] \<and>
   hostsWithLatestCatalog (snd (nmaReadCatalogEditorOp_processResult decodeGlobal
      (opWithResults ''NMAReadCatalogEditorOp''
         [(''A'', passingResult ''A'' ''10''), (''B'', passingResult ''B'' ''12''),
          (''C'', passingResult ''C'' ''12'')]) freshContext)) = [''B'', ''C'']"
proof -
  let ?rc = "[(''A'', passingResult ''A'' ''10''), (''B'', passingResult ''B'' ''12''),
              (''C'', passingResult ''C'' ''12'')]"
  let ?op = "opWithResults ''NMAReadCatalogEditorOp'' ?rc"
  have h1: "hostsWithLatestCatalog freshContext = []"
    by (simp add: freshContext_def)
  have h2: "ResultCollection (clusterHTTPRequest ?op) = ?rc"
    by (simp add: opWithResults_def)
  have g: "successGlobals decodeGlobal ?rc = [10, 12, 12]"
    by (simp add: successGlobals_def map_filter_simps descriptorGlobal_def decodeGlobal_def
        passingResult_def isPassing_def Int64_def ParseUint_def digit_of_def nmaVDatabase_zero_def)
  have d: "descriptorGlobal decodeGlobal (''A'', passingResult ''A'' ''10'') = Some 10"
    "descriptorGlobal decodeGlobal (''B'', passingResult ''B'' ''12'') = Some 12"
    "descriptorGlobal decodeGlobal (''C'', passingResult ''C'' ''12'') = Some 12"
    by (simp_all add: descriptorGlobal_def decodeGlobal_def
        passingResult_def isPassing_def Int64_def ParseUint_def digit_of_def nmaVDatabase_zero_def)
  from readCatalog_latest_hosts_first_seen_order[OF h1 h2, of decodeGlobal] h1 show ?thesis
    by (simp add: g d)
qed







subsection \<open>The published descriptor\<close>

lemma nodesLoop_eq:
  "nodesLoop ns (m, c) =
     (m ++ map_of (rev (map (\<lambda>n. (Address n, n)) ns)), c + length (filter IsPrimary ns))"
proof (induction ns arbitrary: m c)
  case Nil
  show ?case by simp
next
  case (Cons n ns)
  have upd: "m(Address n \<mapsto> n) ++ map_of (rev (map (\<lambda>n. (Address n, n)) ns)) =
        m ++ map_of (rev (map (\<lambda>n. (Address n, n)) (n # ns)))"
    by (rule ext) (simp add: map_add_def split: option.splits)
  have "nodesLoop (n # ns) (m, c) =
        nodesLoop ns (m(Address n \<mapsto> n), if IsPrimary n then c + 1 else c)"
    by simp
  also have "\<dots> = (m(Address n \<mapsto> n) ++ map_of (rev (map (\<lambda>n. (Address n, n)) ns)),
                    (if IsPrimary n then c + 1 else c) + length (filter IsPrimary ns))"
    by (rule Cons.IH)
  also have "\<dots> = (m ++ map_of (rev (map (\<lambda>n. (Address n, n)) (n # ns))),
                    c + length (filter IsPrimary (n # ns)))"
    unfolding upd by simp
  finally show ?case .
qed

lemma deriveMaps_eq:
  "deriveMaps p =
     p\<lparr>HostNodeMap := map_of (rev (map (\<lambda>n. (Address n, n)) (Nodes p))),
       PrimaryNodeCount := length (filter IsPrimary (Nodes p))\<rparr>"
  by (simp add: deriveMaps_def nodesLoop_eq)

lemma deriveMaps_PrimaryNodeCount:
  "PrimaryNodeCount (deriveMaps p) = length (filter IsPrimary (Nodes p))"
  by (simp add: deriveMaps_eq)

lemma deriveMaps_keyed_by_address:
  assumes "HostNodeMap (deriveMaps p) a = Some n"
  shows "Address n = a \<and> n \<in> set (Nodes p)"
proof -
  from assms have "map_of (rev (map (\<lambda>n. (Address n, n)) (Nodes p))) a = Some n"
    by (simp add: deriveMaps_eq)
  then have "(a, n) \<in> set (rev (map (\<lambda>n. (Address n, n)) (Nodes p)))"
    by (rule map_of_SomeD)
  then show ?thesis by auto
qed

lemma deriveMaps_dom: "dom (HostNodeMap (deriveMaps p)) = Address ` set (Nodes p)"
  by (simp add: deriveMaps_eq dom_map_of_conv_image_fst image_image)

lemma readCatalog_published_descriptor_positive:
  assumes fresh: "hostsWithLatestCatalog ctx = []"
    and pub: "hostsWithLatestCatalog (snd (nmaReadCatalogEditorOp_processResult parse op ctx)) \<noteq> []"
    and pos: "0 < Max (insert 0 (set (successGlobals parse (ResultCollection (clusterHTTPRequest op)))))"
  shows "nmaVDatabase (snd (nmaReadCatalogEditorOp_processResult parse op ctx)) =
         parsedOf parse (hd (filter (\<lambda>hr. descriptorGlobal parse hr =
             Some (Max (insert 0 (set (successGlobals parse (ResultCollection (clusterHTTPRequest op)))))))
           (ResultCollection (clusterHTTPRequest op))))"
proof -
  let ?rc = "ResultCollection (clusterHTTPRequest op)"
  obtain a' hs' m' l' where
    run: "electionLoop parse (name op) (None, [], 0, nmaVDatabase_zero) ?rc = (a', hs', m', l')"
    by (cases "electionLoop parse (name op) (None, [], 0, nmaVDatabase_zero) ?rc") auto
  from electionLoop_inv[OF run] have m': "m' = Max (insert 0 (set (successGlobals parse ?rc)))"
    by (simp add: foldl_max_Max)
  from pub fresh have "hs' \<noteq> []"
    unfolding processResult_unfold[OF run] by (auto split: if_splits)
  with electionLoop_latest[OF run] pos m' show ?thesis
    unfolding processResult_unfold[OF run] by simp
qed


text \<open>
  Claim C3 at the input where the code departs from it. A single host answers with
  \<open>versions.global = 0\<close> and one primary node. The version equals the initial
  \<open>maxGlobalVersion\<close>, so the host is appended to the winners by the equality branch,
  which does not save its descriptor: the operation succeeds and publishes the host
  together with the zero-valued \<open>nmaVDatabase\<close> (no nodes, empty \<open>HostNodeMap\<close>, a
  \<open>PrimaryNodeCount\<close> of 0) instead of the host's parsed descriptor.
\<close>

theorem readCatalog_global_zero_publishes_empty_descriptor:
  "nmaReadCatalogEditorOp_processResult decodeGlobal
      (opWithResults ''NMAReadCatalogEditorOp'' [(''A'', passingResult ''A'' ''0'')]) freshContext =
     (None, freshContext\<lparr>hostsWithLatestCatalog := [''A''], nmaVDatabase := nmaVDatabase_zero\<rparr>) \<and>
   Nodes (parsedOf decodeGlobal (''A'', passingResult ''A'' ''0'')) = [sampleNode] \<and>
   Nodes nmaVDatabase_zero = []"
  by (simp add: nmaReadCatalogEditorOp_processResult_def opWithResults_def
      decodeGlobal_def passingResult_def isPassing_def Int64_def parsedOf_def
      ParseUint_def digit_of_def Let_def deriveMaps_def nmaVDatabase_zero_def)


section \<open>httpsStartReplicationOp.processResult: properties\<close>

lemma startReplicationLoop_unauthorized:
  "isUnauthorizedRequest r \<Longrightarrow> startReplicationLoop parseMap n a ((h, r) # rest) = err r"
  by simp

lemma startReplicationLoop_not_unauthorized:
  "\<not> isUnauthorizedRequest r \<Longrightarrow>
     \<exists>a2. startReplicationLoop parseMap n a ((h, r) # rest) = startReplicationLoop parseMap n a2 rest"
proof (cases "isPassing r")
  case False
  assume "\<not> isUnauthorizedRequest r"
  with False show ?thesis by auto
next
  case True
  assume nu: "\<not> isUnauthorizedRequest r"
  show ?thesis
  proof (cases "parseMap h (content r)")
    case (Inl e)
    with True nu show ?thesis by auto
  next
    case (Inr rsp)
    with True nu show ?thesis
      by (cases "mapIndex rsp ''detail'' = startReplicationOpSuccMsg") auto
  qed
qed

lemma startReplicationLoop_skips:
  assumes "\<forall>hr\<in>set before. \<not> isUnauthorizedRequest (snd hr)"
    and "isUnauthorizedRequest r"
  shows "startReplicationLoop parseMap n a (before @ (h, r) # after) = err r"
  using assms(1)
proof (induction before arbitrary: a)
  case Nil
  from assms(2) show ?case
    by (simp only: append_Nil startReplicationLoop_unauthorized)
next
  case (Cons x before)
  obtain h' r' where x: "x = (h', r')" by (cases x)
  from Cons.prems have nu: "\<not> isUnauthorizedRequest r'"
    and rest: "\<forall>hr\<in>set before. \<not> isUnauthorizedRequest (snd hr)"
    by (simp_all add: x)
  from startReplicationLoop_not_unauthorized[OF nu, of parseMap n a h' "before @ (h, r) # after"]
  obtain a2 where "startReplicationLoop parseMap n a ((h', r') # before @ (h, r) # after) =
      startReplicationLoop parseMap n a2 (before @ (h, r) # after)" by blast
  also have "\<dots> = err r" by (rule Cons.IH[OF rest])
  finally show ?case by (simp only: x append_Cons)
qed

text \<open>
  Claim C6. If the result collection holds an unauthorized result, the reduction stops
  at the first one it meets in iteration order and returns that host's error: the
  errors joined from the hosts met before it are dropped, and the hosts after it are
  never inspected (any collection that agrees up to that host gives the same return).
\<close>

theorem startReplication_unauthorized_short_circuit:
  assumes "ResultCollection (clusterHTTPRequest op) = rc"
    and "\<exists>hr\<in>set rc. isUnauthorizedRequest (snd hr)"
  shows "\<exists>before h r after.
           rc = before @ (h, r) # after \<and> isUnauthorizedRequest r \<and>
           (\<forall>hr\<in>set before. \<not> isUnauthorizedRequest (snd hr)) \<and>
           httpsStartReplicationOp_processResult parseMap op = err r \<and>
           (\<forall>op' after'. ResultCollection (clusterHTTPRequest op') = before @ (h, r) # after' \<longrightarrow>
              httpsStartReplicationOp_processResult parseMap (op' :: opBase) = err r)"
proof -
  from assms(2) obtain before x after where
    split: "rc = before @ x # after" "isUnauthorizedRequest (snd x)"
      "\<forall>hr\<in>set before. \<not> isUnauthorizedRequest (snd hr)"
    using split_list_first_prop[of rc "\<lambda>hr. isUnauthorizedRequest (snd hr)"] by blast
  obtain h r where x: "x = (h, r)" by (cases x)
  from split(2) have ur: "isUnauthorizedRequest r" by (simp add: x)
  have run: "startReplicationLoop parseMap n None (before @ (h, r) # after') = err r" for n after'
    by (rule startReplicationLoop_skips[OF split(3) ur])
  have here: "httpsStartReplicationOp_processResult parseMap op = err r"
    unfolding httpsStartReplicationOp_processResult_def assms(1) split(1) x by (rule run)
  have others: "\<forall>op' after'. ResultCollection (clusterHTTPRequest op') = before @ (h, r) # after' \<longrightarrow>
              httpsStartReplicationOp_processResult parseMap (op' :: opBase) = err r"
  proof (intro allI impI)
    fix op' :: opBase and after'
    assume "ResultCollection (clusterHTTPRequest op') = before @ (h, r) # after'"
    then show "httpsStartReplicationOp_processResult parseMap op' = err r"
      unfolding httpsStartReplicationOp_processResult_def by (simp only: run)
  qed
  from split(1) have "rc = before @ (h, r) # after" by (simp only: x)
  with ur split(3) here others show ?thesis by blast
qed

theorem startReplication_unauthorized_short_circuit_witness:
  "isUnauthorizedRequest (unauthorizedResult ''B'' (Errorf ''unauthorized'' [] [])) \<and>
   httpsStartReplicationOp_processResult decodeDetail
     (opWithResults ''HTTPSStartReplicationOp''
        [(''A'', failedResult ''A'' transportError),
         (''B'', unauthorizedResult ''B'' (Errorf ''unauthorized'' [] [])),
         (''C'', passingResult ''C'' ''REPLICATE'')]) =
     Some (Errorf ''unauthorized'' [] [])"
proof -
  let ?rc = "[(''A'', failedResult ''A'' transportError),
         (''B'', unauthorizedResult ''B'' (Errorf ''unauthorized'' [] [])),
         (''C'', passingResult ''C'' ''REPLICATE'')]"
  let ?op = "opWithResults ''HTTPSStartReplicationOp'' ?rc"
  have u: "isUnauthorizedRequest (unauthorizedResult ''B'' (Errorf ''unauthorized'' [] []))"
    by (simp add: isUnauthorizedRequest_def unauthorizedResult_def)
  have nuA: "\<not> isUnauthorizedRequest (failedResult ''A'' transportError)"
    by (simp add: isUnauthorizedRequest_def failedResult_def)
  have nuC: "\<not> isUnauthorizedRequest (passingResult ''C'' ''REPLICATE'')"
    by (simp add: isUnauthorizedRequest_def passingResult_def)
  have h1: "ResultCollection (clusterHTTPRequest ?op) = ?rc"
    by (simp add: opWithResults_def)
  have h2: "\<exists>hr\<in>set ?rc. isUnauthorizedRequest (snd hr)"
    using u by simp
  from startReplication_unauthorized_short_circuit[OF h1 h2, of decodeDetail]
  obtain before h r after where
    sp: "?rc = before @ (h, r) # after" and ur: "isUnauthorizedRequest r"
    and res: "httpsStartReplicationOp_processResult decodeDetail ?op = err r"
    by blast
  from sp have "(h, r) \<in> set ?rc" by (metis in_set_conv_decomp)
  with ur nuA nuC have "r = unauthorizedResult ''B'' (Errorf ''unauthorized'' [] [])"
    by auto
  with res have "httpsStartReplicationOp_processResult decodeDetail ?op = Some (Errorf ''unauthorized'' [] [])"
    by (simp add: unauthorizedResult_def)
  with u show ?thesis by (intro conjI)
qed


text \<open>
  Claim C4, as the code has it. On an empty result collection the read-catalog
  reduction returns an error (no host with the latest catalog was found), while the
  start-replication reduction returns nil: its loop body never runs and nothing else
  looks at the size of the collection.
\<close>

theorem processResult_on_empty_collection:
  assumes "ResultCollection (clusterHTTPRequest op) = []"
  shows "fst (nmaReadCatalogEditorOp_processResult parse op ctx) =
           Some (JoinError [Errorf ''[%s] cannot find any host with the latest catalog''
                              [Str (name op)] []]) \<and>
         httpsStartReplicationOp_processResult parseMap op = None"
  using assms
  by (simp add: nmaReadCatalogEditorOp_processResult_def httpsStartReplicationOp_processResult_def)

theorem processResult_on_empty_collection_witness:
  "ResultCollection (clusterHTTPRequest (opWithResults ''op'' [])) = [] \<and>
   fst (nmaReadCatalogEditorOp_processResult decodeGlobal (opWithResults ''op'' []) freshContext) =
     Some (JoinError [Errorf ''[%s] cannot find any host with the latest catalog'' [Str ''op''] []]) \<and>
   httpsStartReplicationOp_processResult decodeDetail (opWithResults ''op'' []) = None"
proof -
  have h: "ResultCollection (clusterHTTPRequest (opWithResults ''op'' [])) = []"
    by (simp add: opWithResults_def)
  have n: "name (opWithResults ''op'' []) = ''op''"
    by (simp add: opWithResults_def)
  from processResult_on_empty_collection[OF h, of decodeGlobal freshContext decodeDetail] h
  show ?thesis by (simp only: n simp_thms)
qed


text \<open>
  The claim as stated fails for \<open>httpsStartReplicationOp.processResult\<close>: on no results at
  all it reports success.
\<close>

theorem startReplication_empty_collection_counterexample:
  "httpsStartReplicationOp_processResult decodeDetail (opWithResults ''HTTPSStartReplicationOp'' []) = None"
  by (simp add: httpsStartReplicationOp_processResult_def opWithResults_def)


section \<open>NMALoadRemoteCatalogOp.processResult: the quorum\<close>

lemma loadCatalogLoop_step:
  "\<exists>a2. loadCatalogLoop parse n hnm (a, c) ((h, r) # rest) =
     loadCatalogLoop parse n hnm (a2, if loadedOnPrimary parse hnm (h, r) then c + 1 else c) rest"
proof (cases "isPassing r")
  case False
  then show ?thesis by (auto simp: loadedOnPrimary_def)
next
  case True
  show ?thesis
  proof (cases "parse h (content r)")
    case (Inl e)
    with True show ?thesis by (auto simp: loadedOnPrimary_def)
  next
    case (Inr rsp)
    with True show ?thesis
      by (cases "StatusCode rsp = 0") (auto simp: loadedOnPrimary_def successfulCode_def)
  qed
qed

lemma loadCatalogLoop_count:
  "snd (loadCatalogLoop parse n hnm (a, c) rc) = c + length (filter (loadedOnPrimary parse hnm) rc)"
proof (induction rc arbitrary: a c)
  case Nil
  show ?case by simp
next
  case (Cons hr rc)
  obtain h r where hr: "hr = (h, r)" by (cases hr)
  from loadCatalogLoop_step[of parse n hnm a c h r rc] obtain a2 where
    "loadCatalogLoop parse n hnm (a, c) ((h, r) # rc) =
     loadCatalogLoop parse n hnm (a2, if loadedOnPrimary parse hnm (h, r) then c + 1 else c) rc"
    by blast
  then have "snd (loadCatalogLoop parse n hnm (a, c) (hr # rc)) =
     (if loadedOnPrimary parse hnm (h, r) then c + 1 else c) + length (filter (loadedOnPrimary parse hnm) rc)"
    by (simp only: hr Cons.IH)
  then show ?case by (simp add: hr)
qed

lemma err_nats_appendHTTPSFailureError:
  "\<exists>e. appendHTTPSFailureError (errors_Join [a, Some (Errorf f [Str s, Num c] [])]) = Some e \<and>
        c \<in> set (err_nats e)"
  by (cases a) (simp_all add: appendHTTPSFailureError_def)

text \<open>
  The constructor's \<open>primaryNodeCount\<close> is the number of primary nodes of the database it
  is given.
\<close>

lemma countPrimaryNodes_eq:
  "countPrimaryNodes hnm ks n =
     n + length (filter (\<lambda>h. VCoordinationNode.IsPrimary (hostNodeMapIndex hnm h)) ks)"
  by (induction ks arbitrary: n) simp_all

lemma makeNMALoadRemoteCatalogOp_primaryNodeCount:
  assumes "distinct (map fst (VCoordinationDatabase.HostNodeMap vdb'))"
  shows "primaryNodeCount (makeNMALoadRemoteCatalogOp newHosts old db loc params vdb' t) =
         length (filter (\<lambda>hv. VCoordinationNode.IsPrimary (snd hv))
                   (VCoordinationDatabase.HostNodeMap vdb'))"
proof -
  let ?hnm = "VCoordinationDatabase.HostNodeMap vdb'"
  have idx: "hostNodeMapIndex ?hnm (fst hv) = snd hv" if "hv \<in> set ?hnm" for hv
  proof -
    from that have "(fst hv, snd hv) \<in> set ?hnm" by simp
    with assms have "map_of ?hnm (fst hv) = Some (snd hv)" by (rule map_of_is_SomeI)
    then show ?thesis by (simp add: hostNodeMapIndex_def)
  qed
  have "filter (\<lambda>h. VCoordinationNode.IsPrimary (hostNodeMapIndex ?hnm h)) (map fst ?hnm) =
        map fst (filter (\<lambda>hv. VCoordinationNode.IsPrimary (snd hv)) ?hnm)"
    unfolding filter_map comp_def
    by (rule arg_cong[where f = "map fst"], rule filter_cong[OF refl]) (simp add: idx)
  then show ?thesis
    by (simp add: makeNMALoadRemoteCatalogOp_def countPrimaryNodes_eq)
qed


lemma sampleLoadOp_primaryNodeCount: "primaryNodeCount (sampleLoadOp rc) = 3"
  by (simp add: sampleLoadOp_def makeNMALoadRemoteCatalogOp_def sampleVdb_def sampleVNode_def
      MakeVCoordinationDatabase_def VCoordinationNode_zero_def hostNodeMapIndex_def)

text \<open>
  Claim C2, as the code has it. \<open>processResult\<close> returns nil if and only if the number of
  primary nodes (per \<open>vdb.HostNodeMap[host].IsPrimary\<close>) that returned a passing,
  parseable response with status code 0 is strictly more than half of the operation's
  primary-node count; failures of other hosts are then not fatal. Below quorum it
  returns a non-nil aggregated error that carries the success count. The total
  primary-node count is not part of that error.
\<close>

theorem loadRemoteCatalog_quorum:
  assumes "successCount = length (filter (loadedOnPrimary parse (VCoordinationDatabase.HostNodeMap (loadVdb op)))
                                     (ResultCollection (clusterHTTPRequest op)))"
  shows "(NMALoadRemoteCatalogOp_processResult parse op = None \<longleftrightarrow>
            primaryNodeCount op < 2 * successCount) \<and>
         (\<not> primaryNodeCount op < 2 * successCount \<longrightarrow>
            (\<exists>e. NMALoadRemoteCatalogOp_processResult parse op = Some e \<and> successCount \<in> set (err_nats e)))"
proof -
  obtain a c where run: "loadCatalogLoop parse (name op) (VCoordinationDatabase.HostNodeMap (loadVdb op)) (None, 0)
             (ResultCollection (clusterHTTPRequest op)) = (a, c)"
    by (cases "loadCatalogLoop parse (name op) (VCoordinationDatabase.HostNodeMap (loadVdb op)) (None, 0)
             (ResultCollection (clusterHTTPRequest op))") auto
  from loadCatalogLoop_count[of parse "name op" "VCoordinationDatabase.HostNodeMap (loadVdb op)" None 0
      "ResultCollection (clusterHTTPRequest op)"] run assms
  have c: "c = successCount" by simp
  show ?thesis
  proof (cases "primaryNodeCount op < 2 * successCount")
    case True
    then show ?thesis
      by (simp add: NMALoadRemoteCatalogOp_processResult_def run c hasQuorum_def)
  next
    case False
    from err_nats_appendHTTPSFailureError[of a
        "''[%s] fail to load catalog on enough primary nodes. Success count: %d''" "name op" successCount]
    obtain e where e: "appendHTTPSFailureError (errors_Join [a,
        Some (Errorf ''[%s] fail to load catalog on enough primary nodes. Success count: %d''
                [Str (name op), Num successCount] [])]) = Some e" "successCount \<in> set (err_nats e)"
      by blast
    from False have "NMALoadRemoteCatalogOp_processResult parse op = Some e"
      by (simp only: NMALoadRemoteCatalogOp_processResult_def run c hasQuorum_def prod.case if_True simp_thms e)
    with False e(2) show ?thesis by simp
  qed
qed

theorem loadRemoteCatalog_quorum_witness:
  "primaryNodeCount (sampleLoadOp
      [(''192.168.1.103'', passingResult ''192.168.1.103'' ''0''),
       (''192.168.1.101'', failedResult ''192.168.1.101'' transportError),
       (''192.168.1.102'', passingResult ''192.168.1.102'' ''0'')]) = 3 \<and>
   length (filter (loadedOnPrimary decodeStatus (VCoordinationDatabase.HostNodeMap sampleVdb))
      [(''192.168.1.103'', passingResult ''192.168.1.103'' ''0''),
       (''192.168.1.101'', failedResult ''192.168.1.101'' transportError),
       (''192.168.1.102'', passingResult ''192.168.1.102'' ''0'')]) = 2 \<and>
   NMALoadRemoteCatalogOp_processResult decodeStatus (sampleLoadOp
      [(''192.168.1.103'', passingResult ''192.168.1.103'' ''0''),
       (''192.168.1.101'', failedResult ''192.168.1.101'' transportError),
       (''192.168.1.102'', passingResult ''192.168.1.102'' ''0'')]) = None"
proof -
  let ?rc = "[(''192.168.1.103'', passingResult ''192.168.1.103'' ''0''),
       (''192.168.1.101'', failedResult ''192.168.1.101'' transportError),
       (''192.168.1.102'', passingResult ''192.168.1.102'' ''0'')]"
  have vdb: "loadVdb (sampleLoadOp ?rc) = sampleVdb"
    by (simp add: sampleLoadOp_def makeNMALoadRemoteCatalogOp_def)
  have rc: "ResultCollection (clusterHTTPRequest (sampleLoadOp ?rc)) = ?rc"
    by (simp add: sampleLoadOp_def)
  have cnt: "length (filter (loadedOnPrimary decodeStatus (VCoordinationDatabase.HostNodeMap sampleVdb)) ?rc) = 2"
    by (simp add: loadedOnPrimary_def decodeStatus_def passingResult_def failedResult_def
        isPassing_def Int64_def ParseUint_def digit_of_def sampleVdb_def sampleVNode_def
        MakeVCoordinationDatabase_def VCoordinationNode_zero_def hostNodeMapIndex_def)
  have h: "2 = length (filter (loadedOnPrimary decodeStatus
          (VCoordinationDatabase.HostNodeMap (loadVdb (sampleLoadOp ?rc))))
          (ResultCollection (clusterHTTPRequest (sampleLoadOp ?rc))))"
    by (simp only: vdb rc cnt)
  from loadRemoteCatalog_quorum[OF h]
  have "NMALoadRemoteCatalogOp_processResult decodeStatus (sampleLoadOp ?rc) = None"
    by (simp add: sampleLoadOp_primaryNodeCount)
  with sampleLoadOp_primaryNodeCount[of ?rc] cnt show ?thesis by (intro conjI)
qed


text \<open>
  The claim as stated fails on the content of the error: with three primary nodes and
  one success the only number the returned error carries is the success count 1.
\<close>

theorem loadRemoteCatalog_quorum_error_counterexample:
  "primaryNodeCount (sampleLoadOp
      [(''192.168.1.103'', passingResult ''192.168.1.103'' ''0''),
       (''192.168.1.101'', failedResult ''192.168.1.101'' transportError),
       (''192.168.1.102'', passingResult ''192.168.1.102'' ''1'')]) = 3 \<and>
   map_option err_nats (NMALoadRemoteCatalogOp_processResult decodeStatus (sampleLoadOp
      [(''192.168.1.103'', passingResult ''192.168.1.103'' ''0''),
       (''192.168.1.101'', failedResult ''192.168.1.101'' transportError),
       (''192.168.1.102'', passingResult ''192.168.1.102'' ''1'')])) = Some [1]"
  by (simp add: NMALoadRemoteCatalogOp_processResult_def sampleLoadOp_def
      makeNMALoadRemoteCatalogOp_def decodeStatus_def passingResult_def failedResult_def
      isPassing_def Int64_def ParseUint_def digit_of_def sampleVdb_def sampleVNode_def
      MakeVCoordinationDatabase_def VCoordinationNode_zero_def hostNodeMapIndex_def
      successfulCode_def hasQuorum_def appendHTTPSFailureError_def errors_Join_def
      map_filter_simps transportError_def)


section \<open>generateReviveVDB: properties\<close>

lemma reviveLoop_panics:
  "index \<le> length vNodes \<Longrightarrow> length vNodes < index + length hs \<Longrightarrow>
     \<exists>p. reviveLoop vNodes index hs acc = Inl p"
proof (induction hs arbitrary: index acc)
  case Nil
  then show ?case by simp
next
  case (Cons h hs)
  obtain m old where acc: "acc = (m, old)" by (cases acc)
  show ?case
  proof (cases "index < length vNodes")
    case True
    then have le: "index + 1 \<le> length vNodes" by simp
    from Cons.prems have lt: "length vNodes < (index + 1) + length hs" by simp
    from Cons.IH[OF le lt] obtain p where
      "reviveLoop vNodes (index + 1) hs
         (AList.update h ((vNodes ! index)\<lparr>VCoordinationNode.Address := h\<rparr>) m,
          old @ [VCoordinationNode.Address (vNodes ! index)]) = Inl p" by blast
    with True show ?thesis by (simp add: acc)
  next
    case False
    then show ?thesis by (simp add: acc)
  qed
qed

lemma reviveLoop_returns:
  assumes "index + length hs \<le> length vNodes"
  shows "\<exists>m'. reviveLoop vNodes index hs (m, old) =
            Inr (m', old @ map VCoordinationNode.Address (take (length hs) (drop index vNodes))) \<and>
          (\<forall>h. h \<notin> set hs \<longrightarrow> map_of m' h = map_of m h) \<and>
          (distinct hs \<longrightarrow>
             (\<forall>k<length hs. map_of m' (hs ! k) =
                 Some ((vNodes ! (index + k))\<lparr>VCoordinationNode.Address := hs ! k\<rparr>))) \<and>
          ((\<forall>h v. map_of m h = Some v \<longrightarrow> VCoordinationNode.Address v = h) \<longrightarrow>
           (\<forall>h v. map_of m' h = Some v \<longrightarrow> VCoordinationNode.Address v = h)) \<and>
          fst ` set m' = fst ` set m \<union> set hs"
  using assms
proof (induction hs arbitrary: index m old)
  case Nil
  show ?case by simp
next
  case (Cons h hs)
  let ?v = "(vNodes ! index)\<lparr>VCoordinationNode.Address := h\<rparr>"
  let ?m1 = "AList.update h ?v m"
  let ?old1 = "old @ [VCoordinationNode.Address (vNodes ! index)]"
  from Cons.prems have lt: "index < length vNodes" and le: "(index + 1) + length hs \<le> length vNodes"
    by simp_all
  from Cons.IH[OF le, of ?m1 ?old1] obtain m' where ih:
    "reviveLoop vNodes (index + 1) hs (?m1, ?old1) =
            Inr (m', ?old1 @ map VCoordinationNode.Address (take (length hs) (drop (index + 1) vNodes))) \<and>
     (\<forall>h'. h' \<notin> set hs \<longrightarrow> map_of m' h' = map_of ?m1 h') \<and>
     (distinct hs \<longrightarrow>
             (\<forall>k<length hs. map_of m' (hs ! k) =
                 Some ((vNodes ! (index + 1 + k))\<lparr>VCoordinationNode.Address := hs ! k\<rparr>))) \<and>
     ((\<forall>h' v. map_of ?m1 h' = Some v \<longrightarrow> VCoordinationNode.Address v = h') \<longrightarrow>
           (\<forall>h' v. map_of m' h' = Some v \<longrightarrow> VCoordinationNode.Address v = h')) \<and>
     fst ` set m' = fst ` set ?m1 \<union> set hs"
    by (elim exE)
  from ih have run: "reviveLoop vNodes (index + 1) hs (?m1, ?old1) =
            Inr (m', ?old1 @ map VCoordinationNode.Address (take (length hs) (drop (index + 1) vNodes)))"
    by (rule conjunct1)
  from ih have keep: "\<forall>h'. h' \<notin> set hs \<longrightarrow> map_of m' h' = map_of ?m1 h'"
    by (elim conjE)
  from ih have at: "distinct hs \<longrightarrow>
             (\<forall>k<length hs. map_of m' (hs ! k) =
                 Some ((vNodes ! (index + 1 + k))\<lparr>VCoordinationNode.Address := hs ! k\<rparr>))"
    by (elim conjE)
  from ih have inv: "(\<forall>h' v. map_of ?m1 h' = Some v \<longrightarrow> VCoordinationNode.Address v = h') \<longrightarrow>
           (\<forall>h' v. map_of m' h' = Some v \<longrightarrow> VCoordinationNode.Address v = h')"
    by (elim conjE)
  from ih have keys: "fst ` set m' = fst ` set ?m1 \<union> set hs"
    by (elim conjE)
  have olds: "?old1 @ map VCoordinationNode.Address (take (length hs) (drop (index + 1) vNodes)) =
      old @ map VCoordinationNode.Address (take (length (h # hs)) (drop index vNodes))"
    using lt by (simp add: Cons_nth_drop_Suc[symmetric])
  have 1: "reviveLoop vNodes index (h # hs) (m, old) =
      Inr (m', old @ map VCoordinationNode.Address (take (length (h # hs)) (drop index vNodes)))"
    using lt run olds by simp
  have 2: "\<forall>h'. h' \<notin> set (h # hs) \<longrightarrow> map_of m' h' = map_of m h'"
    using keep by (simp add: update_conv')
  have 3: "distinct (h # hs) \<longrightarrow>
             (\<forall>k<length (h # hs). map_of m' ((h # hs) ! k) =
                 Some ((vNodes ! (index + k))\<lparr>VCoordinationNode.Address := (h # hs) ! k\<rparr>))"
  proof (intro impI allI)
    fix k assume d: "distinct (h # hs)" and k: "k < length (h # hs)"
    show "map_of m' ((h # hs) ! k) =
                 Some ((vNodes ! (index + k))\<lparr>VCoordinationNode.Address := (h # hs) ! k\<rparr>)"
    proof (cases k)
      case 0
      from d have "h \<notin> set hs" by simp
      with keep have "map_of m' h = map_of ?m1 h" by simp
      then show ?thesis by (simp add: 0 update_conv')
    next
      case (Suc j)
      with d k at show ?thesis by simp
    qed
  qed
  have 4: "(\<forall>h' v. map_of m h' = Some v \<longrightarrow> VCoordinationNode.Address v = h') \<longrightarrow>
           (\<forall>h' v. map_of m' h' = Some v \<longrightarrow> VCoordinationNode.Address v = h')"
  proof
    assume a: "\<forall>h' v. map_of m h' = Some v \<longrightarrow> VCoordinationNode.Address v = h'"
    have "\<forall>h' v. map_of ?m1 h' = Some v \<longrightarrow> VCoordinationNode.Address v = h'"
      using a by (auto simp: update_conv' split: if_splits)
    with inv show "\<forall>h' v. map_of m' h' = Some v \<longrightarrow> VCoordinationNode.Address v = h'" by blast
  qed
  have 5: "fst ` set m' = fst ` set m \<union> set (h # hs)"
    unfolding keys dom_update by auto
  from 1 2 3 4 5 show ?case by (intro exI[of _ m'] conjI)
qed

lemma sampleVdb_sorted:
  "sort_key VCoordinationNode.Name (map snd (VCoordinationDatabase.HostNodeMap sampleVdb)) =
     [sampleVNode ''v_test_db_node0001'' ''192.168.1.101'' True,
      sampleVNode ''v_test_db_node0002'' ''192.168.1.102'' True,
      sampleVNode ''v_test_db_node0003'' ''192.168.1.103'' True]"
  by (simp add: sampleVdb_def sampleVNode_def MakeVCoordinationDatabase_def VCoordinationNode_zero_def)

text \<open>
  Claim C10, as the code has it. For a database of \<open>n\<close> nodes and a list of exactly \<open>n\<close>
  pairwise distinct new hosts, \<open>generateReviveVDB\<close> returns a new database whose host list
  is the input, in which the k-th host is mapped to the node with the k-th smallest
  name (the k-th node of the nodes sorted by name), with that node's \<open>Address\<close> rewritten
  to the host; every node of the new map has its key as address, the keys are the new
  hosts, and \<open>oldHosts\<close> holds the replaced addresses in the same order. A host list
  longer than \<open>n\<close> makes the function panic on an out-of-range index.
\<close>

theorem generateReviveVDB_assigns_hosts_by_name_order:
  assumes "vNodes = sort_key VCoordinationNode.Name (map snd (VCoordinationDatabase.HostNodeMap vdb'))"
  shows "(length hosts' = length (VCoordinationDatabase.HostNodeMap vdb') \<and> distinct hosts' \<longrightarrow>
           (\<exists>newVDB oldHosts'.
              generateReviveVDB vdb' hosts' = Inr (newVDB, oldHosts') \<and>
              HostList newVDB = hosts' \<and>
              (\<forall>k<length hosts'.
                 map_of (VCoordinationDatabase.HostNodeMap newVDB) (hosts' ! k) =
                   Some ((vNodes ! k)\<lparr>VCoordinationNode.Address := hosts' ! k\<rparr>)) \<and>
              (\<forall>h v. map_of (VCoordinationDatabase.HostNodeMap newVDB) h = Some v \<longrightarrow>
                 VCoordinationNode.Address v = h) \<and>
              fst ` set (VCoordinationDatabase.HostNodeMap newVDB) = set hosts' \<and>
              oldHosts' = map VCoordinationNode.Address vNodes)) \<and>
         (length (VCoordinationDatabase.HostNodeMap vdb') < length hosts' \<longrightarrow>
           (\<exists>p. generateReviveVDB vdb' hosts' = Inl p))"
proof (intro conjI impI)
  assume a: "length hosts' = length (VCoordinationDatabase.HostNodeMap vdb') \<and> distinct hosts'"
  then have len: "length hosts' = length vNodes" and d: "distinct hosts'"
    by (simp_all add: assms)
  then have le: "0 + length hosts' \<le> length vNodes" by simp
  from reviveLoop_returns[OF le, of "[]" "[]"] obtain m' where ih:
    "reviveLoop vNodes 0 hosts' ([], []) =
            Inr (m', [] @ map VCoordinationNode.Address (take (length hosts') (drop 0 vNodes))) \<and>
     (\<forall>h. h \<notin> set hosts' \<longrightarrow> map_of m' h = map_of ([] :: (string \<times> VCoordinationNode) list) h) \<and>
     (distinct hosts' \<longrightarrow>
             (\<forall>k<length hosts'. map_of m' (hosts' ! k) =
                 Some ((vNodes ! (0 + k))\<lparr>VCoordinationNode.Address := hosts' ! k\<rparr>))) \<and>
     ((\<forall>h v. map_of ([] :: (string \<times> VCoordinationNode) list) h = Some v \<longrightarrow> VCoordinationNode.Address v = h) \<longrightarrow>
           (\<forall>h v. map_of m' h = Some v \<longrightarrow> VCoordinationNode.Address v = h)) \<and>
     fst ` set m' = fst ` set ([] :: (string \<times> VCoordinationNode) list) \<union> set hosts'"
    by (elim exE)
  from ih have run0: "reviveLoop vNodes 0 hosts' ([], []) =
            Inr (m', [] @ map VCoordinationNode.Address (take (length hosts') (drop 0 vNodes)))"
    by (rule conjunct1)
  from ih have at0: "distinct hosts' \<longrightarrow>
             (\<forall>k<length hosts'. map_of m' (hosts' ! k) =
                 Some ((vNodes ! (0 + k))\<lparr>VCoordinationNode.Address := hosts' ! k\<rparr>))"
    by (elim conjE)
  from ih have inv0: "(\<forall>h v. map_of ([] :: (string \<times> VCoordinationNode) list) h = Some v \<longrightarrow> VCoordinationNode.Address v = h) \<longrightarrow>
           (\<forall>h v. map_of m' h = Some v \<longrightarrow> VCoordinationNode.Address v = h)"
    by (elim conjE)
  from ih have keys0: "fst ` set m' = fst ` set ([] :: (string \<times> VCoordinationNode) list) \<union> set hosts'"
    by (elim conjE)
  have run: "reviveLoop vNodes 0 hosts' ([], []) = Inr (m', map VCoordinationNode.Address vNodes)"
    using run0 len by simp
  have at: "\<forall>k<length hosts'. map_of m' (hosts' ! k) =
                 Some ((vNodes ! k)\<lparr>VCoordinationNode.Address := hosts' ! k\<rparr>)"
    using at0 d by simp
  have inv: "\<forall>h v. map_of m' h = Some v \<longrightarrow> VCoordinationNode.Address v = h"
    using inv0 by simp
  have keys: "fst ` set m' = set hosts'" using keys0 by simp
  let ?new = "MakeVCoordinationDatabase\<lparr>HostList := hosts', VCoordinationDatabase.HostNodeMap := m'\<rparr>"
  have g: "generateReviveVDB vdb' hosts' = Inr (?new, map VCoordinationNode.Address vNodes)"
    using run by (simp add: generateReviveVDB_def assms[symmetric])
  have hl: "HostList ?new = hosts'" by simp
  have hm: "VCoordinationDatabase.HostNodeMap ?new = m'" by simp
  show "\<exists>newVDB oldHosts'.
              generateReviveVDB vdb' hosts' = Inr (newVDB, oldHosts') \<and>
              HostList newVDB = hosts' \<and>
              (\<forall>k<length hosts'.
                 map_of (VCoordinationDatabase.HostNodeMap newVDB) (hosts' ! k) =
                   Some ((vNodes ! k)\<lparr>VCoordinationNode.Address := hosts' ! k\<rparr>)) \<and>
              (\<forall>h v. map_of (VCoordinationDatabase.HostNodeMap newVDB) h = Some v \<longrightarrow>
                 VCoordinationNode.Address v = h) \<and>
              fst ` set (VCoordinationDatabase.HostNodeMap newVDB) = set hosts' \<and>
              oldHosts' = map VCoordinationNode.Address vNodes"
  proof (intro exI conjI)
    show "generateReviveVDB vdb' hosts' = Inr (?new, map VCoordinationNode.Address vNodes)"
      by (rule g)
    show "HostList ?new = hosts'" by (rule hl)
    show "\<forall>k<length hosts'.
                 map_of (VCoordinationDatabase.HostNodeMap ?new) (hosts' ! k) =
                   Some ((vNodes ! k)\<lparr>VCoordinationNode.Address := hosts' ! k\<rparr>)"
      unfolding hm by (rule at)
    show "\<forall>h v. map_of (VCoordinationDatabase.HostNodeMap ?new) h = Some v \<longrightarrow>
                 VCoordinationNode.Address v = h"
      unfolding hm by (rule inv)
    show "fst ` set (VCoordinationDatabase.HostNodeMap ?new) = set hosts'"
      unfolding hm by (rule keys)
    show "map VCoordinationNode.Address vNodes = map VCoordinationNode.Address vNodes"
      by (rule refl)
  qed
next
  assume "length (VCoordinationDatabase.HostNodeMap vdb') < length hosts'"
  then have "length vNodes < 0 + length hosts'" by (simp add: assms)
  from reviveLoop_panics[OF _ this, of "([], [])"] obtain p where
    "reviveLoop vNodes 0 hosts' ([], []) = Inl p" by auto
  then have "generateReviveVDB vdb' hosts' = Inl p"
    by (simp add: generateReviveVDB_def assms[symmetric])
  then show "\<exists>p. generateReviveVDB vdb' hosts' = Inl p" ..
qed

theorem generateReviveVDB_assigns_hosts_by_name_order_witness:
  "length [''10.1.10.2'', ''10.1.10.1'', ''10.1.10.3''] =
     length (VCoordinationDatabase.HostNodeMap sampleVdb) \<and>
   distinct [''10.1.10.2'', ''10.1.10.1'', ''10.1.10.3''] \<and>
   (\<exists>newVDB. generateReviveVDB sampleVdb [''10.1.10.2'', ''10.1.10.1'', ''10.1.10.3''] =
        Inr (newVDB, [''192.168.1.101'', ''192.168.1.102'', ''192.168.1.103'']) \<and>
      map_of (VCoordinationDatabase.HostNodeMap newVDB) ''10.1.10.2'' =
        Some (sampleVNode ''v_test_db_node0001'' ''10.1.10.2'' True) \<and>
      map_of (VCoordinationDatabase.HostNodeMap newVDB) ''10.1.10.1'' =
        Some (sampleVNode ''v_test_db_node0002'' ''10.1.10.1'' True))"
proof -
  let ?hs = "[''10.1.10.2'', ''10.1.10.1'', ''10.1.10.3'']"
  let ?vs = "[sampleVNode ''v_test_db_node0001'' ''192.168.1.101'' True,
      sampleVNode ''v_test_db_node0002'' ''192.168.1.102'' True,
      sampleVNode ''v_test_db_node0003'' ''192.168.1.103'' True]"
  have len: "length ?hs = length (VCoordinationDatabase.HostNodeMap sampleVdb)"
    by (simp add: sampleVdb_def)
  have d: "distinct ?hs" by simp
  from generateReviveVDB_assigns_hosts_by_name_order[OF sampleVdb_sorted[symmetric], of ?hs] len d
  obtain newVDB oldHosts' where
    g: "generateReviveVDB sampleVdb ?hs = Inr (newVDB, oldHosts')"
    and at: "\<forall>k<length ?hs.
                 map_of (VCoordinationDatabase.HostNodeMap newVDB) (?hs ! k) =
                   Some ((?vs ! k)\<lparr>VCoordinationNode.Address := ?hs ! k\<rparr>)"
    and old: "oldHosts' = map VCoordinationNode.Address ?vs"
    by blast
  from old have old': "oldHosts' = [''192.168.1.101'', ''192.168.1.102'', ''192.168.1.103'']"
    by (simp add: sampleVNode_def)
  from at have "map_of (VCoordinationDatabase.HostNodeMap newVDB) (?hs ! 0) =
                   Some ((?vs ! 0)\<lparr>VCoordinationNode.Address := ?hs ! 0\<rparr>)"
    by (elim allE[of _ 0]) simp
  then have a0: "map_of (VCoordinationDatabase.HostNodeMap newVDB) ''10.1.10.2'' =
        Some (sampleVNode ''v_test_db_node0001'' ''10.1.10.2'' True)"
    by (simp add: sampleVNode_def)
  from at have "map_of (VCoordinationDatabase.HostNodeMap newVDB) (?hs ! 1) =
                   Some ((?vs ! 1)\<lparr>VCoordinationNode.Address := ?hs ! 1\<rparr>)"
    by (elim allE[of _ 1]) simp
  then have a1: "map_of (VCoordinationDatabase.HostNodeMap newVDB) ''10.1.10.1'' =
        Some (sampleVNode ''v_test_db_node0002'' ''10.1.10.1'' True)"
    by (simp add: sampleVNode_def)
  from g old' a0 a1 have "\<exists>newVDB. generateReviveVDB sampleVdb ?hs =
        Inr (newVDB, [''192.168.1.101'', ''192.168.1.102'', ''192.168.1.103'']) \<and>
      map_of (VCoordinationDatabase.HostNodeMap newVDB) ''10.1.10.2'' =
        Some (sampleVNode ''v_test_db_node0001'' ''10.1.10.2'' True) \<and>
      map_of (VCoordinationDatabase.HostNodeMap newVDB) ''10.1.10.1'' =
        Some (sampleVNode ''v_test_db_node0002'' ''10.1.10.1'' True)"
    by (intro exI[of _ newVDB]) simp
  with len d show ?thesis by (intro conjI)
qed


text \<open>
  The claim as stated fails for a host list that repeats a host: the second assignment
  overwrites the first in the map, so the first host of the list is mapped to the node
  with the second smallest name.
\<close>

theorem generateReviveVDB_repeated_host_counterexample:
  "length [''10.1.10.2'', ''10.1.10.2'', ''10.1.10.3''] =
     length (VCoordinationDatabase.HostNodeMap sampleVdb) \<and>
   (case generateReviveVDB sampleVdb [''10.1.10.2'', ''10.1.10.2'', ''10.1.10.3''] of
      Inl p \<Rightarrow> None
    | Inr (newVDB, oldHosts') \<Rightarrow>
        map_of (VCoordinationDatabase.HostNodeMap newVDB)
          ([''10.1.10.2'', ''10.1.10.2'', ''10.1.10.3''] ! 0)) =
     Some (sampleVNode ''v_test_db_node0002'' ''10.1.10.2'' True) \<and>
   sort_key VCoordinationNode.Name (map snd (VCoordinationDatabase.HostNodeMap sampleVdb)) ! 0 =
     sampleVNode ''v_test_db_node0001'' ''192.168.1.101'' True"
proof -
  have len: "length [''10.1.10.2'', ''10.1.10.2'', ''10.1.10.3''] =
     length (VCoordinationDatabase.HostNodeMap sampleVdb)"
    by (simp add: sampleVdb_def)
  have run: "(case generateReviveVDB sampleVdb [''10.1.10.2'', ''10.1.10.2'', ''10.1.10.3''] of
      Inl p \<Rightarrow> None
    | Inr (newVDB, oldHosts') \<Rightarrow>
        map_of (VCoordinationDatabase.HostNodeMap newVDB)
          ([''10.1.10.2'', ''10.1.10.2'', ''10.1.10.3''] ! 0)) =
     Some (sampleVNode ''v_test_db_node0002'' ''10.1.10.2'' True)"
    by (simp add: generateReviveVDB_def sampleVdb_sorted sampleVNode_def)
  have first: "sort_key VCoordinationNode.Name (map snd (VCoordinationDatabase.HostNodeMap sampleVdb)) ! 0 =
     sampleVNode ''v_test_db_node0001'' ''192.168.1.101'' True"
    by (simp add: sampleVdb_sorted)
  from len run first show ?thesis by (intro conjI)
qed


section \<open>prepare: running it twice\<close>

lemma readCatalog_setup_stable:
  assumes "\<forall>h\<in>set (takeWhile (\<lambda>h. map_of cpm h \<noteq> None) hs).
             map_of rc h = Some (readCatalogRequest (the (map_of cpm h)))"
  shows "snd (readCatalog_setupClusterHTTPRequest n cpm hs rc) = rc"
  using assms
proof (induction hs)
  case Nil
  show ?case by simp
next
  case (Cons h hs)
  show ?case
  proof (cases "map_of cpm h")
    case None
    then show ?thesis by simp
  next
    case (Some p)
    with Cons.prems have "map_of rc h = Some (readCatalogRequest p)" by simp
    then have same: "AList.update h (readCatalogRequest p) rc = rc" by (rule update_triv)
    from Cons.prems Some have "\<forall>h\<in>set (takeWhile (\<lambda>h. map_of cpm h \<noteq> None) hs).
             map_of rc h = Some (readCatalogRequest (the (map_of cpm h)))" by simp
    from Cons.IH[OF this] Some same show ?thesis by simp
  qed
qed

lemma readCatalog_setup_establishes:
  assumes "readCatalog_setupClusterHTTPRequest n cpm hs rc = (e, rc')"
  shows "(\<forall>h. map_of cpm h \<noteq> None \<and> map_of rc h = Some (readCatalogRequest (the (map_of cpm h)))
             \<longrightarrow> map_of rc' h = Some (readCatalogRequest (the (map_of cpm h)))) \<and>
         (\<forall>h\<in>set (takeWhile (\<lambda>h. map_of cpm h \<noteq> None) hs).
             map_of rc' h = Some (readCatalogRequest (the (map_of cpm h)))) \<and>
         (e = None \<longleftrightarrow> (\<forall>h\<in>set hs. map_of cpm h \<noteq> None))"
  using assms
proof (induction hs arbitrary: rc)
  case Nil
  then show ?case by simp
next
  case (Cons h hs)
  show ?case
  proof (cases "map_of cpm h")
    case None
    with Cons.prems show ?thesis by auto
  next
    case (Some p)
    let ?rc1 = "AList.update h (readCatalogRequest p) rc"
    from Cons.prems Some have run: "readCatalog_setupClusterHTTPRequest n cpm hs ?rc1 = (e, rc')"
      by simp
    note ih = Cons.IH[OF run]
    from ih have keep: "\<forall>h'. map_of cpm h' \<noteq> None \<and>
         map_of ?rc1 h' = Some (readCatalogRequest (the (map_of cpm h')))
             \<longrightarrow> map_of rc' h' = Some (readCatalogRequest (the (map_of cpm h')))"
      by (rule conjunct1)
    from ih have tw: "\<forall>h\<in>set (takeWhile (\<lambda>h. map_of cpm h \<noteq> None) hs).
             map_of rc' h = Some (readCatalogRequest (the (map_of cpm h)))"
      by (elim conjE)
    from ih have ee: "e = None \<longleftrightarrow> (\<forall>h\<in>set hs. map_of cpm h \<noteq> None)"
      by (elim conjE)
    have at_h: "map_of ?rc1 h = Some (readCatalogRequest p)" by (simp add: update_conv')
    with keep Some have h_ok: "map_of rc' h = Some (readCatalogRequest p)" by auto
    have 1: "\<forall>h'. map_of cpm h' \<noteq> None \<and> map_of rc h' = Some (readCatalogRequest (the (map_of cpm h')))
             \<longrightarrow> map_of rc' h' = Some (readCatalogRequest (the (map_of cpm h')))"
    proof (intro allI impI)
      fix h' assume a: "map_of cpm h' \<noteq> None \<and> map_of rc h' = Some (readCatalogRequest (the (map_of cpm h')))"
      show "map_of rc' h' = Some (readCatalogRequest (the (map_of cpm h')))"
      proof (cases "h' = h")
        case True
        with h_ok Some show ?thesis by simp
      next
        case False
        with a have "map_of ?rc1 h' = Some (readCatalogRequest (the (map_of cpm h')))"
          by (simp add: update_conv')
        with a keep show ?thesis by blast
      qed
    qed
    have 2: "\<forall>h'\<in>set (takeWhile (\<lambda>h. map_of cpm h \<noteq> None) (h # hs)).
             map_of rc' h' = Some (readCatalogRequest (the (map_of cpm h')))"
      using Some h_ok tw by simp
    have 3: "e = None \<longleftrightarrow> (\<forall>h\<in>set (h # hs). map_of cpm h \<noteq> None)"
      using ee Some by simp
    from 1 2 3 show ?thesis by (intro conjI)
  qed
qed

lemma readCatalog_setup_again:
  assumes run: "readCatalog_setupClusterHTTPRequest n cpm hs rc = (e, rc')"
    and extra: "set extra \<subseteq> set hs"
  shows "snd (readCatalog_setupClusterHTTPRequest n cpm (hs @ extra) rc') = rc'"
proof (rule readCatalog_setup_stable)
  let ?P = "\<lambda>h. map_of cpm h \<noteq> None"
  from readCatalog_setup_establishes[OF run]
  have tw: "\<forall>h\<in>set (takeWhile ?P hs). map_of rc' h = Some (readCatalogRequest (the (map_of cpm h)))"
    by (elim conjE)
  show "\<forall>h\<in>set (takeWhile ?P (hs @ extra)).
             map_of rc' h = Some (readCatalogRequest (the (map_of cpm h)))"
  proof (cases "\<forall>h\<in>set hs. ?P h")
    case True
    then have all: "takeWhile ?P hs = hs" by (simp add: takeWhile_eq_all_conv)
    from True have "takeWhile ?P (hs @ extra) = hs @ takeWhile ?P extra"
      by (simp add: takeWhile_append2)
    moreover have "set (takeWhile ?P extra) \<subseteq> set hs"
      using extra set_takeWhileD by fastforce
    ultimately have sub: "set (takeWhile ?P (hs @ extra)) \<subseteq> set hs" by auto
    from tw have good: "\<forall>h\<in>set hs. map_of rc' h = Some (readCatalogRequest (the (map_of cpm h)))"
      unfolding all .
    from sub good show ?thesis by blast
  next
    case False
    then obtain x where "x \<in> set hs" "\<not> ?P x" by blast
    then have "takeWhile ?P (hs @ extra) = takeWhile ?P hs"
      by (rule takeWhile_append1)
    with tw show ?thesis by simp
  qed
qed

lemma initiatorLoop_shape:
  "initiatorLoop n hnm ini (hs, cpm) = (e, hs', cpm') \<Longrightarrow>
     (\<exists>pre. hs' = hs @ pre \<and> set pre \<subseteq> set ini \<and> (e = None \<longrightarrow> pre = ini)) \<and>
     (\<forall>hs2. initiatorLoop n hnm ini (hs2, cpm) = (e, hs2 @ drop (length hs) hs', cpm'))"
proof (induction ini arbitrary: hs cpm)
  case Nil
  then show ?case by simp
next
  case (Cons h ini)
  show ?case
  proof (cases "map_of hnm h")
    case None
    with Cons.prems show ?thesis by auto
  next
    case (Some v)
    let ?cpm1 = "AList.update h (VCoordinationNode.CatalogPath v) cpm"
    from Cons.prems Some have run: "initiatorLoop n hnm ini (hs @ [h], ?cpm1) = (e, hs', cpm')"
      by simp
    note ih = Cons.IH[OF run]
    from ih obtain pre where pre: "hs' = (hs @ [h]) @ pre" "set pre \<subseteq> set ini" "e = None \<longrightarrow> pre = ini"
      by blast
    from ih have again: "\<forall>hs2. initiatorLoop n hnm ini (hs2, ?cpm1) =
        (e, hs2 @ drop (length (hs @ [h])) hs', cpm')"
      by (rule conjunct2)
    have 1: "\<exists>pre. hs' = hs @ pre \<and> set pre \<subseteq> set (h # ini) \<and> (e = None \<longrightarrow> pre = h # ini)"
      using pre by (intro exI[of _ "h # pre"]) auto
    have 2: "\<forall>hs2. initiatorLoop n hnm (h # ini) (hs2, cpm) = (e, hs2 @ drop (length hs) hs', cpm')"
    proof
      fix hs2
      from again have "initiatorLoop n hnm ini (hs2 @ [h], ?cpm1) =
        (e, (hs2 @ [h]) @ drop (length (hs @ [h])) hs', cpm')" by (rule spec)
      moreover have "drop (length hs) hs' = h # drop (length (hs @ [h])) hs'"
        using pre(1) by simp
      ultimately show "initiatorLoop n hnm (h # ini) (hs2, cpm) = (e, hs2 @ drop (length hs) hs', cpm')"
        using Some by simp
    qed
    from 1 2 show ?thesis by (intro conjI)
  qed
qed

lemma readCatalog_build_again:
  assumes b: "readCatalog_buildCatalogPathMap op = (be, hs, cpm)"
    and same: "initiator op' = initiator op" "vdb op' = vdb op" "name op' = name op"
    and hs: "hosts op' = hs"
  shows "\<exists>extra. readCatalog_buildCatalogPathMap op' = (be, hs @ extra, cpm) \<and> set extra \<subseteq> set hs"
proof (cases "initiator op = []")
  case True
  with b same have "readCatalog_buildCatalogPathMap op' = (be, hs @ [], cpm)"
    by (simp add: readCatalog_buildCatalogPathMap_def)
  then show ?thesis by (intro exI[of _ "[]"]) simp
next
  case False
  let ?hnm = "VCoordinationDatabase.HostNodeMap (vdb op)"
  from b False have run: "initiatorLoop (name op) ?hnm (initiator op) (hosts op, []) = (be, hs, cpm)"
    by (simp add: readCatalog_buildCatalogPathMap_def)
  from initiatorLoop_shape[OF run] obtain pre where
    pre: "hs = hosts op @ pre"
    and again: "\<forall>hs2. initiatorLoop (name op) ?hnm (initiator op) (hs2, []) =
        (be, hs2 @ drop (length (hosts op)) hs, cpm)"
    by blast
  from again have "initiatorLoop (name op) ?hnm (initiator op) (hs, []) =
        (be, hs @ drop (length (hosts op)) hs, cpm)" by (rule spec)
  moreover have "drop (length (hosts op)) hs = pre" using pre by simp
  ultimately have "initiatorLoop (name op) ?hnm (initiator op) (hs, []) = (be, hs @ pre, cpm)"
    by simp
  with False same hs have "readCatalog_buildCatalogPathMap op' = (be, hs @ pre, cpm)"
    by (simp add: readCatalog_buildCatalogPathMap_def)
  moreover have "set pre \<subseteq> set hs" using pre by auto
  ultimately show ?thesis by blast
qed


text \<open>
  Go ranges over a map in an unspecified order, which may differ between two runs. The
  request collection of the second run is the same also when the second run meets the
  entries of \<open>vdb.HostNodeMap\<close> in another order.
\<close>

lemma readCatalog_setup_cong:
  "map_of cpm2 = map_of cpm \<Longrightarrow>
     readCatalog_setupClusterHTTPRequest n cpm2 hs rc = readCatalog_setupClusterHTTPRequest n cpm hs rc"
  by (induction hs arbitrary: rc) (simp_all split: option.splits)

lemma readCatalog_setup_again_subset:
  assumes run: "readCatalog_setupClusterHTTPRequest n cpm hs rc = (None, rc')"
    and sub: "set hs2 \<subseteq> set hs"
  shows "snd (readCatalog_setupClusterHTTPRequest n cpm hs2 rc') = rc'"
proof (rule readCatalog_setup_stable)
  let ?P = "\<lambda>h. map_of cpm h \<noteq> None"
  from readCatalog_setup_establishes[OF run]
  have tw: "\<forall>h\<in>set (takeWhile ?P hs). map_of rc' h = Some (readCatalogRequest (the (map_of cpm h)))"
    and all: "\<forall>h\<in>set hs. ?P h"
    by simp_all
  from all have tk: "takeWhile ?P hs = hs" by (simp add: takeWhile_eq_all_conv)
  from tw have good: "\<forall>h\<in>set hs. map_of rc' h = Some (readCatalogRequest (the (map_of cpm h)))"
    unfolding tk .
  have "set (takeWhile ?P hs2) \<subseteq> set hs2" by (auto dest: set_takeWhileD)
  with sub good show "\<forall>h\<in>set (takeWhile ?P hs2).
             map_of rc' h = Some (readCatalogRequest (the (map_of cpm h)))" by blast
qed

lemma fold_update_map_of:
  "distinct (map fst xs) \<Longrightarrow>
     map_of (fold (\<lambda>hv pathMap. AList.update (fst hv) (f (snd hv)) pathMap) xs acc) =
     map_of acc ++ map_of (map (\<lambda>hv. (fst hv, f (snd hv))) xs)"
proof (induction xs arbitrary: acc)
  case Nil
  show ?case by simp
next
  case (Cons x xs)
  let ?M = "map_of (map (\<lambda>hv. (fst hv, f (snd hv))) xs)"
  from Cons.prems have d: "distinct (map fst xs)" and nin: "fst x \<notin> fst ` set xs" by simp_all
  have "dom ?M = fst ` set xs" by (simp add: dom_map_of_conv_image_fst image_image)
  with nin have "fst x \<notin> dom ?M" by simp
  then have none: "?M (fst x) = None" by blast
  have "map_of (fold (\<lambda>hv pathMap. AList.update (fst hv) (f (snd hv)) pathMap) (x # xs) acc) =
        map_of (AList.update (fst x) (f (snd x)) acc) ++ ?M"
    using Cons.IH[OF d] by simp
  also have "\<dots> = (map_of acc)(fst x \<mapsto> f (snd x)) ++ ?M" by (simp add: update_conv')
  also have "\<dots> = map_of acc ++ ?M(fst x \<mapsto> f (snd x))"
    using none by (intro ext) (auto simp add: map_add_def split: option.splits)
  also have "\<dots> = map_of acc ++ map_of (map (\<lambda>hv. (fst hv, f (snd hv))) (x # xs))"
    by simp
  finally show ?case .
qed

lemma map_of_same_entries:
  assumes "distinct (map fst xs)" "distinct (map fst ys)" "set ys = set xs"
  shows "map_of ys = map_of xs"
  using assms by (simp add: map_of_inject_set)

lemma initiatorLoop_cong:
  "map_of hnm' = map_of hnm \<Longrightarrow>
     snd (initiatorLoop n hnm' ini st) = snd (initiatorLoop n hnm ini st) \<and>
     (fst (initiatorLoop n hnm' ini st) = None \<longleftrightarrow> fst (initiatorLoop n hnm ini st) = None)"
proof (induction ini arbitrary: st)
  case Nil
  show ?case by (cases st) simp
next
  case (Cons h ini)
  obtain hs cpm where st: "st = (hs, cpm)" by (cases st)
  show ?case
  proof (cases "map_of hnm h")
    case None
    with Cons.prems show ?thesis by (simp add: st)
  next
    case (Some v)
    with Cons.prems have "map_of hnm' h = Some v" by simp
    with Some Cons.IH[OF Cons.prems] show ?thesis by (simp add: st)
  qed
qed

lemma readCatalog_prepare_twice_any_order:
  assumes d: "distinct (map fst (VCoordinationDatabase.HostNodeMap (vdb op)))"
    and d': "distinct (map fst hnm')"
    and s: "set hnm' = set (VCoordinationDatabase.HostNodeMap (vdb op))"
    and p1: "nmaReadCatalogEditorOp_prepare op ctx = (e1, op1, ctx1)"
    and p2: "nmaReadCatalogEditorOp_prepare
               (op1\<lparr>vdb := (vdb op1)\<lparr>VCoordinationDatabase.HostNodeMap := hnm'\<rparr>\<rparr>) ctx1 =
             (e2, op2, ctx2)"
  shows "RequestCollection (clusterHTTPRequest op2) = RequestCollection (clusterHTTPRequest op1)"
proof -
  let ?hnm = "VCoordinationDatabase.HostNodeMap (vdb op)"
  let ?g = "\<lambda>hv. (fst hv, VCoordinationNode.CatalogPath (snd hv))"
  let ?rc0 = "RequestCollection (clusterHTTPRequest op)"
  define op1' where "op1' = op1\<lparr>vdb := (vdb op1)\<lparr>VCoordinationDatabase.HostNodeMap := hnm'\<rparr>\<rparr>"
  have mo: "map_of hnm' = map_of ?hnm" by (rule map_of_same_entries[OF d d' s])
  obtain be hs cpm where b: "readCatalog_buildCatalogPathMap op = (be, hs, cpm)"
    by (cases "readCatalog_buildCatalogPathMap op") auto
  have p2': "nmaReadCatalogEditorOp_prepare op1' ctx1 = (e2, op2, ctx2)"
    using p2 by (simp only: op1'_def)
  show ?thesis
  proof (cases be)
    case (Some e)
    from p1 b Some have op1: "op1 = op\<lparr>hosts := hs, catalogPathMap := cpm\<rparr>"
      by (simp add: nmaReadCatalogEditorOp_prepare_def)
    from b Some have ini: "initiator op \<noteq> []"
      by (auto simp: readCatalog_buildCatalogPathMap_def split: if_splits)
    have "\<exists>extra. readCatalog_buildCatalogPathMap op1 = (be, hs @ extra, cpm) \<and> set extra \<subseteq> set hs"
      by (rule readCatalog_build_again[OF b]) (simp_all add: op1)
    then obtain extra where b1: "readCatalog_buildCatalogPathMap op1 = (Some e, hs @ extra, cpm)"
      using Some by blast
    with ini have loop: "initiatorLoop (name op) ?hnm (initiator op) (hs, []) = (Some e, hs @ extra, cpm)"
      by (simp add: readCatalog_buildCatalogPathMap_def op1)
    from initiatorLoop_cong[OF mo, of "name op" "initiator op" "(hs, [])"] loop
    obtain e' where "initiatorLoop (name op) hnm' (initiator op) (hs, []) = (Some e', hs @ extra, cpm)"
      by (cases "initiatorLoop (name op) hnm' (initiator op) (hs, [])") auto
    with ini have b1': "readCatalog_buildCatalogPathMap op1' = (Some e', hs @ extra, cpm)"
      by (simp add: readCatalog_buildCatalogPathMap_def op1'_def op1)
    from p2' b1' have "op2 = op1'\<lparr>hosts := hs @ extra, catalogPathMap := cpm\<rparr>"
      by (simp add: nmaReadCatalogEditorOp_prepare_def)
    then show ?thesis by (simp add: op1'_def)
  next
    case None
    obtain e rc1 where s1: "readCatalog_setupClusterHTTPRequest (name op) cpm hs ?rc0 = (e, rc1)"
      by (cases "readCatalog_setupClusterHTTPRequest (name op) cpm hs ?rc0") auto
    from p1 b None s1 have op1: "op1 = op\<lparr>hosts := hs, catalogPathMap := cpm,
        clusterHTTPRequest := (clusterHTTPRequest op)\<lparr>RequestCollection := rc1\<rparr>\<rparr>"
      by (simp add: nmaReadCatalogEditorOp_prepare_def)
    then have rc_op1: "RequestCollection (clusterHTTPRequest op1) = rc1" by simp
    have rc_op1': "RequestCollection (clusterHTTPRequest op1') = rc1"
      and n1: "name op1' = name op"
      by (simp_all add: op1'_def op1)
    have "\<exists>hs2 cpm2. readCatalog_buildCatalogPathMap op1' = (None, hs2, cpm2) \<and>
            map_of cpm2 = map_of cpm \<and>
            snd (readCatalog_setupClusterHTTPRequest (name op) cpm hs2 rc1) = rc1"
    proof (cases "initiator op = []")
      case True
      with b have hs: "hs = map fst ?hnm"
        and cpm: "cpm = fold (\<lambda>hv pathMap. AList.update (fst hv) (VCoordinationNode.CatalogPath (snd hv)) pathMap) ?hnm []"
        by (simp_all add: readCatalog_buildCatalogPathMap_def)
      let ?cpm2 = "fold (\<lambda>hv pathMap. AList.update (fst hv) (VCoordinationNode.CatalogPath (snd hv)) pathMap) hnm' []"
      from True have b1': "readCatalog_buildCatalogPathMap op1' = (None, map fst hnm', ?cpm2)"
        by (simp add: readCatalog_buildCatalogPathMap_def op1'_def op1)
      have m1: "map_of cpm = map_of (map ?g ?hnm)"
        unfolding cpm using fold_update_map_of[OF d, of VCoordinationNode.CatalogPath "[]"] by simp
      have m2: "map_of ?cpm2 = map_of (map ?g hnm')"
        using fold_update_map_of[OF d', of VCoordinationNode.CatalogPath "[]"] by simp
      have "map_of (map ?g hnm') = map_of (map ?g ?hnm)"
      proof (rule map_of_same_entries)
        show "distinct (map fst (map ?g ?hnm))" using d by (simp add: comp_def)
        show "distinct (map fst (map ?g hnm'))" using d' by (simp add: comp_def)
        show "set (map ?g hnm') = set (map ?g ?hnm)" using s by simp
      qed
      with m1 m2 have mm: "map_of ?cpm2 = map_of cpm" by simp
      have "dom (map_of cpm) = fst ` set ?hnm"
        unfolding m1 by (simp add: dom_map_of_conv_image_fst image_image)
      then have "\<forall>h\<in>set hs. map_of cpm h \<noteq> None" unfolding hs by auto
      with readCatalog_setup_establishes[OF s1] have "e = None" by blast
      with s1 have s1': "readCatalog_setupClusterHTTPRequest (name op) cpm hs ?rc0 = (None, rc1)"
        by simp
      have "set (map fst hnm') \<subseteq> set hs" unfolding hs using s by simp
      from readCatalog_setup_again_subset[OF s1' this] b1' mm show ?thesis by blast
    next
      case False
      have "\<exists>extra. readCatalog_buildCatalogPathMap op1 = (be, hs @ extra, cpm) \<and> set extra \<subseteq> set hs"
        by (rule readCatalog_build_again[OF b]) (simp_all add: op1)
      then obtain extra where b1: "readCatalog_buildCatalogPathMap op1 = (None, hs @ extra, cpm)"
        and ex: "set extra \<subseteq> set hs"
        using None by blast
      with False have loop: "initiatorLoop (name op) ?hnm (initiator op) (hs, []) = (None, hs @ extra, cpm)"
        by (simp add: readCatalog_buildCatalogPathMap_def op1)
      from initiatorLoop_cong[OF mo, of "name op" "initiator op" "(hs, [])"] loop
      have "initiatorLoop (name op) hnm' (initiator op) (hs, []) = (None, hs @ extra, cpm)"
        by (cases "initiatorLoop (name op) hnm' (initiator op) (hs, [])") auto
      with False have b1': "readCatalog_buildCatalogPathMap op1' = (None, hs @ extra, cpm)"
        by (simp add: readCatalog_buildCatalogPathMap_def op1'_def op1)
      from readCatalog_setup_again[OF s1 ex] b1' show ?thesis by blast
    qed
    then obtain hs2 cpm2 where b1': "readCatalog_buildCatalogPathMap op1' = (None, hs2, cpm2)"
      and mm: "map_of cpm2 = map_of cpm"
      and st: "snd (readCatalog_setupClusterHTTPRequest (name op) cpm hs2 rc1) = rc1"
      by blast
    obtain e' rc2 where s2: "readCatalog_setupClusterHTTPRequest (name op) cpm2 hs2 rc1 = (e', rc2)"
      by (cases "readCatalog_setupClusterHTTPRequest (name op) cpm2 hs2 rc1") auto
    from s2 st readCatalog_setup_cong[OF mm, of "name op" hs2 rc1] have "rc2 = rc1" by simp
    moreover from p2' b1' s2 rc_op1' n1 have "RequestCollection (clusterHTTPRequest op2) = rc2"
      by (auto simp add: nmaReadCatalogEditorOp_prepare_def)
    ultimately show ?thesis using rc_op1 by simp
  qed
qed











section \<open>AdapterPool.sendRequest: the result collection\<close>











end
